theory Spec2Isabelle
  imports Main "HOL-Library.Word"
begin

section \<open>Bytes, fixed-size arrays and the library types the derivation code uses\<close>

text \<open>
  The Go source under study is \<open>opnode/l2/input_derivation.go\<close>. Byte slices are lists of
  8-bit words. The fixed-size arrays \<open>common.Hash\<close> (\<open>[32]byte\<close>) and \<open>common.Address\<close>
  (\<open>[20]byte\<close>) are words of 256 and 160 bits, read big-endian, so that their length is part
  of the type as it is in Go. \<open>uint64\<close> is a 64-bit word (arithmetic wraps), a
  \<open>uint256.Int\<close> is a 256-bit word, and a \<open>*big.Int\<close> is an \<open>int option\<close> (\<open>None\<close> is the
  nil pointer).
\<close>

type_synonym byte = "8 word"
type_synonym bytes = "byte list"
type_synonym uint64 = "64 word"
type_synonym uint256 = "256 word"
type_synonym Hash = "256 word"
type_synonym Address = "160 word"

text \<open>The number a byte string denotes when read big-endian.\<close>

definition be_nat :: "bytes \<Rightarrow> nat" where
  "be_nat bs = foldl (\<lambda>acc b. acc * 256 + unat b) 0 bs"

text \<open>The \<open>n\<close> low-order bytes of a number, most significant byte first.\<close>

primrec be_bytes :: "nat \<Rightarrow> nat \<Rightarrow> bytes" where
  "be_bytes 0 x = []"
| "be_bytes (Suc n) x = be_bytes n (x div 256) @ [of_nat (x mod 256)]"

text \<open>Go's \<open>xs[lo:hi]\<close> for indices that are in range (\<open>lo \<le> hi \<le> len(xs)\<close>).\<close>

definition slice :: "'a list \<Rightarrow> nat \<Rightarrow> nat \<Rightarrow> 'a list" where
  "slice xs lo hi = take (hi - lo) (drop lo xs)"

text \<open>\<open>h.Bytes()\<close> and \<open>h[:]\<close> of a \<open>common.Hash\<close>: its 32 bytes.\<close>

definition Hash_Bytes :: "Hash \<Rightarrow> bytes" where
  "Hash_Bytes h = be_bytes 32 (unat h)"

text \<open>
  \<open>common.BytesToAddress\<close>: keeps the last 20 bytes of a longer input and left-pads a
  shorter one with zeros; the resulting array is the big-endian number of the kept bytes.
\<close>

definition BytesToAddress :: "bytes \<Rightarrow> Address" where
  "BytesToAddress b =
     word_of_nat (be_nat (if 20 < length b then drop (length b - 20) b else b))"

text \<open>\<open>new(big.Int).SetBytes\<close>, \<open>IsUint64\<close> and \<open>Uint64\<close> of \<open>math/big\<close>.\<close>

definition big_SetBytes :: "bytes \<Rightarrow> int" where
  "big_SetBytes bs = int (be_nat bs)"

definition big_IsUint64 :: "int \<Rightarrow> bool" where
  "big_IsUint64 x \<longleftrightarrow> 0 \<le> x \<and> x < 2 ^ 64"

definition big_Uint64 :: "int \<Rightarrow> uint64" where
  "big_Uint64 x = word_of_int x"

text \<open>
  \<open>SetBytes\<close>, \<open>IsUint64\<close> and \<open>Uint64\<close> of \<open>holiman/uint256\<close>. \<open>SetBytes\<close> keeps the last 32
  bytes of its input, which is the number modulo \<open>2 ^ 256\<close>.
\<close>

definition u256_SetBytes :: "bytes \<Rightarrow> uint256" where
  "u256_SetBytes bs = word_of_nat (be_nat bs)"

definition u256_IsUint64 :: "uint256 \<Rightarrow> bool" where
  "u256_IsUint64 x \<longleftrightarrow> unat x < 2 ^ 64"

definition u256_Uint64 :: "uint256 \<Rightarrow> uint64" where
  "u256_Uint64 x = ucast x"

text \<open>\<open>[]byte(s)\<close> of a Go string.\<close>

definition bytes_of :: "string \<Rightarrow> bytes" where
  "bytes_of s = map of_char s"

section \<open>Data model\<close>

text \<open>
  \<open>types.Log\<close>, \<open>types.Receipt\<close> and \<open>types.DepositTx\<close>, with the fields the code reads or
  writes; \<open>Log\<close> keeps its positions \<open>TxIndex\<close> and \<open>Index\<close> in the block (Go's \<open>uint\<close>), which
  the code never reads. Entries of \<open>receipts\<close> and of \<open>rec.Logs\<close> are taken to be non-nil.
\<close>

record Log =
  Address :: Address
  Topics :: "Hash list"
  Data :: bytes
  TxIndex :: uint64
  Index :: uint64

record Receipt =
  Status :: uint64
  Logs :: "Log list"

record DepositTx =
  BlockHeight :: uint64
  TransactionIndex :: uint64
  From :: Address
  To :: "Address option"
  Mint :: "int option"
  Value :: "int option"
  Gas :: uint64
  Data :: bytes

text \<open>
  The interfaces \<open>L1Info\<close> and \<open>BlockInput\<close>: a block view is the record of what its
  accessors return. \<open>BlockInput\<close> extends \<open>L1Info\<close> with \<open>ReceiptHash\<close> and \<open>MixDigest\<close>.
\<close>

record L1Info =
  NumberU64 :: uint64
  Time :: uint64
  Hash :: Hash
  BaseFee :: "int option"

record BlockInput = L1Info +
  ReceiptHash :: Hash
  MixDigest :: Hash

text \<open>
  Modelled from the spec: the declarations of \<open>PayloadAttributes\<close> and of its field types
  \<open>Uint64Quantity\<close>, \<open>Bytes32\<close> and \<open>Data\<close> are not among the sources. The record has the
  four fields the spec lists, which are the ones the struct literal of \<open>DeriveBlockInputs\<close>
  fills: a \<open>uint64\<close> timestamp, 32 bytes of randomness, an address and the ordered sequence
  of opaque encoded transactions.
\<close>

record PayloadAttributes =
  Timestamp :: uint64
  Random :: Hash
  SuggestedFeeRecipient :: Address
  Transactions :: "bytes list"

text \<open>
  One constructor for each \<open>fmt.Errorf\<close> of the source, carrying the values its format
  string prints.
\<close>

datatype error =
    ErrTopicCount
  | ErrSelector Hash Hash
  | ErrDataTooSmall nat bytes
  | ErrBadGas bytes
  | ErrDataOffset uint64
  | ErrDataTooLarge uint256
  | ErrDataLenTooLong uint64 uint64
  | ErrMalformattedLog error
  | ErrReceiptsInconsistent Hash
  | ErrEncodeL1Info
  | ErrDeriveUserDeposits error
  | ErrEncodeUserTx nat

text \<open>The failures of the log decoder are the spec's \<open>MalformedEvent\<close> class.\<close>

fun MalformedEvent :: "error \<Rightarrow> bool" where
  "MalformedEvent ErrTopicCount = True"
| "MalformedEvent (ErrSelector got want) = True"
| "MalformedEvent (ErrDataTooSmall n d) = True"
| "MalformedEvent (ErrBadGas d) = True"
| "MalformedEvent (ErrDataOffset off) = True"
| "MalformedEvent (ErrDataTooLarge n) = True"
| "MalformedEvent (ErrDataLenTooLong n m) = True"
| "MalformedEvent e = False"

text \<open>The receipts-root failure of \<open>DeriveBlockInputs\<close> is the spec's \<open>IntegrityMismatch\<close>.\<close>

fun IntegrityMismatch :: "error \<Rightarrow> bool" where
  "IntegrityMismatch (ErrReceiptsInconsistent h) = True"
| "IntegrityMismatch e = False"

text \<open>A call either returns or panics; a loop either runs on or returns from the function.\<close>

datatype 'r outcome = Returns 'r | Panics

datatype ('a, 'r) flow = Continue 'a | Return 'r

section \<open>Package-level values\<close>

text \<open>
  \<open>crypto.Keccak256Hash\<close> is library code: every definition that depends on it takes it as
  the parameter \<open>keccak\<close>. \<open>crypto.Keccak256\<close> returns the same digest as a byte slice.
\<close>

definition DepositEventABI :: string where
  "DepositEventABI = ''TransactionDeposited(address,address,uint256,uint256,uint256,bool,bytes)''"

definition DepositEventABIHash :: "(bytes \<Rightarrow> Hash) \<Rightarrow> Hash" where
  "DepositEventABIHash keccak = keccak (bytes_of DepositEventABI)"

definition DepositContractAddr :: Address where
  "DepositContractAddr = 0xdeaddeaddeaddeaddeaddeaddeaddeaddead0001"

definition L1InfoFuncSignature :: string where
  "L1InfoFuncSignature =
     ''setL1BlockValues(uint256 _number, uint256 _timestamp, uint256 _basefee, bytes32 _hash)''"

definition L1InfoFuncBytes4 :: "(bytes \<Rightarrow> Hash) \<Rightarrow> bytes" where
  "L1InfoFuncBytes4 keccak = slice (Hash_Bytes (keccak (bytes_of L1InfoFuncSignature))) 0 4"

definition L1InfoPredeployAddr :: Address where
  "L1InfoPredeployAddr = 0x4242424242424242424242424242424242424242"

definition ReceiptStatusSuccessful :: uint64 where
  "ReceiptStatusSuccessful = 1"

section \<open>UnmarshalLogEvent\<close>

text \<open>
  The decoder follows the source statement by statement: \<open>offset\<close> is the running
  \<open>uint64\<close>, \<open>dep\<close> the struct being filled. The result is Go's pair of a pointer and an
  error.
\<close>

definition zero_DepositTx :: DepositTx where
  "zero_DepositTx = \<lparr>BlockHeight = 0, TransactionIndex = 0, From = 0, To = None, Mint = None,
     Value = None, Gas = 0, Data = []\<rparr>"

definition UnmarshalLogEvent ::
  "(bytes \<Rightarrow> Hash) \<Rightarrow> uint64 \<Rightarrow> uint64 \<Rightarrow> Log \<Rightarrow> DepositTx option \<times> error option" where
  "UnmarshalLogEvent keccak blockNum txIndex ev =
    (if length (Topics ev) \<noteq> 3 then (None, Some ErrTopicCount)
     else if Topics ev ! 0 \<noteq> DepositEventABIHash keccak
       then (None, Some (ErrSelector (Topics ev ! 0) (DepositEventABIHash keccak)))
     else if length (Log.Data ev) < 6 * 32
       then (None, Some (ErrDataTooSmall (length (Log.Data ev)) (Log.Data ev)))
     else
       let dep = zero_DepositTx;
           dep = dep\<lparr>BlockHeight := blockNum\<rparr>;
           dep = dep\<lparr>TransactionIndex := txIndex\<rparr>;
           dep = dep\<lparr>From := BytesToAddress (drop 12 (Hash_Bytes (Topics ev ! 1)))\<rparr>;
           to = BytesToAddress (drop 12 (Hash_Bytes (Topics ev ! 2)));
           offset = (0 :: uint64);
           dep = dep\<lparr>Value :=
             Some (big_SetBytes (slice (Log.Data ev) (unat offset) (unat (offset + 32))))\<rparr>;
           offset = offset + 32;
           dep = dep\<lparr>Mint :=
             Some (big_SetBytes (slice (Log.Data ev) (unat offset) (unat (offset + 32))))\<rparr>;
           dep = (if Mint dep = Some 0 then dep\<lparr>Mint := None\<rparr> else dep);
           offset = offset + 32;
           gas = big_SetBytes (slice (Log.Data ev) (unat offset) (unat (offset + 32)))
       in if \<not> big_IsUint64 gas
          then (None, Some (ErrBadGas (slice (Log.Data ev) (unat offset) (unat (offset + 32)))))
          else
            let offset = offset + 32;
                dep = dep\<lparr>Gas := big_Uint64 gas\<rparr>;
                dep = (if Log.Data ev ! unat (offset + 31) = 0 then dep\<lparr>To := Some to\<rparr> else dep);
                offset = offset + 32;
                dataOffset = u256_SetBytes (slice (Log.Data ev) (unat offset) (unat (offset + 32)));
                offset = offset + 32
            in if dataOffset = 128 then (None, Some (ErrDataOffset (ucast dataOffset)))
               else
                 let dataLen = u256_SetBytes (slice (Log.Data ev) (unat offset) (unat (offset + 32)));
                     offset = offset + 32
                 in if \<not> u256_IsUint64 dataLen then (None, Some (ErrDataTooLarge dataLen))
                    else
                      let maxExpectedLen = (of_nat (length (Log.Data ev)) :: uint64) - offset;
                          dataLenU64 = u256_Uint64 dataLen
                      in if dataLenU64 > maxExpectedLen
                         then (None, Some (ErrDataLenTooLong dataLenU64 maxExpectedLen))
                         else
                           let dep = dep\<lparr>Data :=
                                 slice (Log.Data ev) (unat offset) (unat (offset + dataLenU64))\<rparr>
                           in (Some dep, None))"

section \<open>DeriveL1InfoDeposit\<close>

text \<open>
  Writes through a sub-slice \<open>data[lo:hi]\<close> change \<open>data\<close>: \<open>update_range\<close> replaces the
  bytes from \<open>lo\<close> on. \<open>copy\<close> writes as many bytes as fit, \<open>PutUint64\<close> writes eight (both
  calls pass a window of exactly eight bytes), and \<open>FillBytes\<close> writes the absolute value
  zero-extended to the window, and panics on a nil receiver or when the value does not fit.
\<close>

definition update_range :: "bytes \<Rightarrow> nat \<Rightarrow> bytes \<Rightarrow> bytes" where
  "update_range data lo bs = take lo data @ bs @ drop (lo + length bs) data"

definition copy_to :: "bytes \<Rightarrow> nat \<Rightarrow> nat \<Rightarrow> bytes \<Rightarrow> bytes" where
  "copy_to data lo hi src = update_range data lo (take (min (hi - lo) (length src)) src)"

definition PutUint64 :: "bytes \<Rightarrow> nat \<Rightarrow> uint64 \<Rightarrow> bytes" where
  "PutUint64 data lo v = update_range data lo (be_bytes 8 (unat v))"

definition FillBytes :: "int option \<Rightarrow> bytes \<Rightarrow> nat \<Rightarrow> nat \<Rightarrow> bytes outcome" where
  "FillBytes x data lo hi =
     (case x of
        None \<Rightarrow> Panics
      | Some v \<Rightarrow>
          if nat \<bar>v\<bar> < 256 ^ (hi - lo)
          then Returns (update_range data lo (be_bytes (hi - lo) (nat \<bar>v\<bar>)))
          else Panics)"

definition DeriveL1InfoDeposit :: "(bytes \<Rightarrow> Hash) \<Rightarrow> 'a L1Info_scheme \<Rightarrow> DepositTx outcome" where
  "DeriveL1InfoDeposit keccak block =
    (let data = replicate (4 + 8 + 8 + 32 + 32) (0 :: byte);
         offset = (0 :: nat);
         data = copy_to data offset 4 (L1InfoFuncBytes4 keccak);
         offset = offset + 4;
         data = PutUint64 data offset (NumberU64 block);
         offset = offset + 8;
         data = PutUint64 data offset (Time block);
         offset = offset + 8
     in case FillBytes (BaseFee block) data offset (offset + 32) of
          Panics \<Rightarrow> Panics
        | Returns data \<Rightarrow>
            let offset = offset + 32;
                data = copy_to data offset (offset + 32) (Hash_Bytes (Hash block))
            in Returns \<lparr>BlockHeight = NumberU64 block, TransactionIndex = 0,
                 From = DepositContractAddr, To = Some L1InfoPredeployAddr, Mint = None,
                 Value = Some 0, Gas = 99999999, Data = data\<rparr>)"

section \<open>CheckReceipts\<close>

text \<open>
  \<open>types.DeriveSha\<close> over a fresh stack trie is library code: the parameter \<open>deriveSha\<close>.
\<close>

definition CheckReceipts ::
  "(Receipt list \<Rightarrow> Hash) \<Rightarrow> 'a BlockInput_scheme \<Rightarrow> Receipt list \<Rightarrow> bool" where
  "CheckReceipts deriveSha block receipts \<longleftrightarrow> ReceiptHash block = deriveSha receipts"

section \<open>DeriveUserDeposits\<close>

text \<open>
  The two nested \<open>for\<close> loops, with the slice \<open>out\<close> of pointers as accumulator. The
  early \<open>return nil, fmt.Errorf(...)\<close> leaves both loops with the pair it returns.
\<close>

fun logs_loop ::
  "(bytes \<Rightarrow> Hash) \<Rightarrow> uint64 \<Rightarrow> Log list \<Rightarrow> DepositTx option list \<Rightarrow>
     (DepositTx option list, DepositTx option list \<times> error option) flow" where
  "logs_loop keccak height [] out = Continue out"
| "logs_loop keccak height (lg # logs) out =
     (if Log.Address lg = DepositContractAddr then
        (case UnmarshalLogEvent keccak height (of_nat (length out) + 1) lg of
           (dep, Some err) \<Rightarrow> Return ([], Some (ErrMalformattedLog err))
         | (dep, None) \<Rightarrow> logs_loop keccak height logs (out @ [dep]))
      else logs_loop keccak height logs out)"

fun receipts_loop ::
  "(bytes \<Rightarrow> Hash) \<Rightarrow> uint64 \<Rightarrow> Receipt list \<Rightarrow> DepositTx option list \<Rightarrow>
     (DepositTx option list, DepositTx option list \<times> error option) flow" where
  "receipts_loop keccak height [] out = Continue out"
| "receipts_loop keccak height (rc # receipts) out =
     (if Status rc \<noteq> ReceiptStatusSuccessful then receipts_loop keccak height receipts out
      else
        (case logs_loop keccak height (Logs rc) out of
           Continue out' \<Rightarrow> receipts_loop keccak height receipts out'
         | Return r \<Rightarrow> Return r))"

definition DeriveUserDeposits ::
  "(bytes \<Rightarrow> Hash) \<Rightarrow> uint64 \<Rightarrow> Receipt list \<Rightarrow> DepositTx option list \<times> error option" where
  "DeriveUserDeposits keccak height receipts =
     (case receipts_loop keccak height receipts [] of
        Continue out \<Rightarrow> (out, None)
      | Return r \<Rightarrow> r)"

section \<open>DeriveBlockInputs\<close>

text \<open>
  \<open>types.NewTx(tx).MarshalBinary()\<close> is library code: the parameter \<open>marshal\<close>, from a
  deposit transaction to Go's pair of the encoding and an error (of the library's own type
  \<open>'e\<close>; the code only tests it against nil). \<open>types.NewTx\<close> copies the transaction it is
  given, which dereferences the pointer: a nil entry panics.
\<close>

fun encode_loop ::
  "(DepositTx \<Rightarrow> bytes \<times> 'e option) \<Rightarrow> DepositTx option list \<Rightarrow> nat \<Rightarrow> bytes list \<Rightarrow>
     (bytes list, PayloadAttributes option \<times> error option) flow outcome" where
  "encode_loop marshal [] i encodedTxs = Returns (Continue encodedTxs)"
| "encode_loop marshal (tx # userDeposits) i encodedTxs =
     (case tx of
        None \<Rightarrow> Panics
      | Some t \<Rightarrow>
          (case marshal t of
             (opaqueTx, Some err) \<Rightarrow> Returns (Return (None, Some (ErrEncodeUserTx i)))
           | (opaqueTx, None) \<Rightarrow> encode_loop marshal userDeposits (i + 1) (encodedTxs @ [opaqueTx])))"

definition DeriveBlockInputs ::
  "(bytes \<Rightarrow> Hash) \<Rightarrow> (Receipt list \<Rightarrow> Hash) \<Rightarrow> (DepositTx \<Rightarrow> bytes \<times> 'e option) \<Rightarrow>
     'a BlockInput_scheme \<Rightarrow> Receipt list \<Rightarrow> (PayloadAttributes option \<times> error option) outcome" where
  "DeriveBlockInputs keccak deriveSha marshal block receipts =
    (if \<not> CheckReceipts deriveSha block receipts
     then Returns (None, Some (ErrReceiptsInconsistent (ReceiptHash block)))
     else
       (case DeriveL1InfoDeposit keccak block of
          Panics \<Rightarrow> Panics
        | Returns l1Tx \<Rightarrow>
            (case marshal l1Tx of
               (opaqueL1Tx, Some err) \<Rightarrow> Returns (None, Some ErrEncodeL1Info)
             | (opaqueL1Tx, None) \<Rightarrow>
                 (case DeriveUserDeposits keccak (NumberU64 block) receipts of
                    (userDeposits, Some err) \<Rightarrow> Returns (None, Some (ErrDeriveUserDeposits err))
                  | (userDeposits, None) \<Rightarrow>
                      (case encode_loop marshal userDeposits 0 ([] @ [opaqueL1Tx]) of
                         Panics \<Rightarrow> Panics
                       | Returns (Return r) \<Rightarrow> Returns r
                       | Returns (Continue encodedTxs) \<Rightarrow>
                           Returns (Some \<lparr>Timestamp = Time block, Random = MixDigest block,
                             SuggestedFeeRecipient = 0, Transactions = encodedTxs\<rparr>, None))))))"

section \<open>The spec's selection of logs\<close>

text \<open>
  The logs the spec says are kept: those of the receipts with successful status, emitted by
  the deposit contract, receipts in their order and logs in their order within a receipt.
\<close>

definition kept_logs :: "Receipt list \<Rightarrow> Log list" where
  "kept_logs receipts =
     concat (map (\<lambda>rc. filter (\<lambda>lg. Log.Address lg = DepositContractAddr) (Logs rc))
       (filter (\<lambda>rc. Status rc = ReceiptStatusSuccessful) receipts))"

text \<open>
  The canonical form of the setter signature, from which the ABI derives a function
  selector: the function name and the parameter types only, without parameter names or
  spaces. The source's \<open>L1InfoFuncSignature\<close> is not in this form.
\<close>

definition canonical_setter_signature :: string where
  "canonical_setter_signature = ''setL1BlockValues(uint256,uint256,uint256,bytes32)''"

text \<open>Decoding a list of logs with the indices \<open>n + 1\<close>, \<open>n + 2\<close>, ... in turn.\<close>

fun decode_from ::
  "(bytes \<Rightarrow> Hash) \<Rightarrow> uint64 \<Rightarrow> nat \<Rightarrow> Log list \<Rightarrow> (DepositTx option \<times> error option) list" where
  "decode_from keccak height n [] = []"
| "decode_from keccak height n (lg # lgs) =
     UnmarshalLogEvent keccak height (of_nat n + 1) lg # decode_from keccak height (Suc n) lgs"

section \<open>Concrete inputs\<close>

text \<open>
  Inputs at which the definitions are evaluated. \<open>keccak_known\<close> is an instance of the
  parameter \<open>keccak\<close> that has the Keccak-256 digests of the two signature strings of the
  source and of the canonical setter signature, and is zero elsewhere; \<open>deriveSha_count\<close> and \<open>marshal_plain\<close> are instances of the parameters
  \<open>deriveSha\<close> and \<open>marshal\<close>. The theorems hold for every instance.
\<close>

definition keccak_known :: "bytes \<Rightarrow> Hash" where
  "keccak_known m =
     (if m = bytes_of DepositEventABI
      then 0x26137a5e34446f63aa9ea28797a0e70c3987720913879898802dd60b944615ad
      else if m = bytes_of L1InfoFuncSignature
      then 0x8c89c38603e022a055929d9c6275ce472a1b0219d2bd01188dee85b8adaee8ae
      else if m = bytes_of canonical_setter_signature
      then 0xc03ba43e0a357c601d27396e719273662ac0ffa5440e6b6c70e6a98c9cf673fa
      else 0)"

definition deriveSha_count :: "Receipt list \<Rightarrow> Hash" where
  "deriveSha_count receipts = of_nat (length receipts)"

definition marshal_plain :: "DepositTx \<Rightarrow> bytes \<times> unit option" where
  "marshal_plain tx = (126 # DepositTx.Data tx, None)"

definition marshal_failing :: "DepositTx \<Rightarrow> bytes \<times> unit option" where
  "marshal_failing tx = ([], Some ())"

text \<open>
  The unindexed part of a deposit event: six 32-byte fields (value, mint, gas, creation
  flag, data offset, data length) and the bytes after them.
\<close>

definition deposit_payload :: "nat \<Rightarrow> nat \<Rightarrow> nat \<Rightarrow> nat \<Rightarrow> nat \<Rightarrow> nat \<Rightarrow> bytes \<Rightarrow> bytes" where
  "deposit_payload v m g c off n rest =
     be_bytes 32 v @ be_bytes 32 m @ be_bytes 32 g @ be_bytes 32 c @ be_bytes 32 off @
     be_bytes 32 n @ rest"

definition ev_ok :: Log where
  "ev_ok = \<lparr>Address = DepositContractAddr,
     Topics = [0x26137a5e34446f63aa9ea28797a0e70c3987720913879898802dd60b944615ad, 0x1111, 0x2222],
     Data = deposit_payload 5 0 21000 0 160 3 ([1, 2, 3] @ replicate 29 0),
     TxIndex = 7, Index = 9\<rparr>"

definition ev_offset128 :: Log where
  "ev_offset128 = ev_ok\<lparr>Log.Data := deposit_payload 5 0 21000 0 128 3 ([1, 2, 3] @ replicate 29 0)\<rparr>"

definition ev_mint_create :: Log where
  "ev_mint_create = ev_ok\<lparr>Log.Data := deposit_payload 0 9 21000 1 160 0 []\<rparr>"

definition block100 :: BlockInput where
  "block100 = \<lparr>NumberU64 = 100, Time = 1000,
     Hash = 0xAAAAAAAAAAAAAAAAAAAAAAAAAAAAAAAAAAAAAAAAAAAAAAAAAAAAAAAAAAAAAAAA,
     BaseFee = Some 7, ReceiptHash = 2, MixDigest = 0x55\<rparr>"

definition receipts_ok :: "Receipt list" where
  "receipts_ok =
     [\<lparr>Status = 0, Logs = [ev_ok, ev_offset128]\<rparr>,
      \<lparr>Status = 1, Logs = [ev_ok\<lparr>Log.Address := 0x1234\<rparr>, ev_ok, ev_mint_create]\<rparr>]"

definition receipts_none :: "Receipt list" where
  "receipts_none =
     [\<lparr>Status = 1, Logs = [ev_ok\<lparr>Log.Address := 0x1234\<rparr>]\<rparr>, \<lparr>Status = 0, Logs = [ev_ok]\<rparr>]"

definition receipts_bad :: "Receipt list" where
  "receipts_bad =
     [\<lparr>Status = 1, Logs = [ev_ok]\<rparr>, \<lparr>Status = 1, Logs = [ev_offset128, ev_ok]\<rparr>]"

section \<open>Facts about the byte and word helpers\<close>

lemma be_nat_Nil: "be_nat [] = 0" by (simp add: be_nat_def)
lemma be_nat_snoc: "be_nat (bs @ [b]) = be_nat bs * 256 + unat b" by (simp add: be_nat_def)

lemma be_nat_bound: "be_nat bs < 256 ^ length bs"
proof (induction bs rule: rev_induct)
  case Nil then show ?case by (simp add: be_nat_Nil)
next
  case (snoc b bs)
  have "unat b < 256" using unsigned_less[of b] by simp
  with snoc show ?case by (simp add: be_nat_snoc)
qed

lemma length_be_bytes: "length (be_bytes n x) = n"
  by (induction n arbitrary: x) auto

lemma be_nat_be_bytes: "be_nat (be_bytes n x) = x mod 256 ^ n"
proof (induction n arbitrary: x)
  case 0 show ?case by (simp add: be_nat_Nil)
next
  case (Suc n)
  have "unat (word_of_nat (x mod 256) :: byte) = x mod 256"
    by (simp add: unat_of_nat)
  then show ?case using Suc[of "x div 256"]
    by (simp add: be_nat_snoc mod_mult2_eq)
qed

lemma length_slice: "length (slice xs lo hi) = min (hi - lo) (length xs - lo)"
  by (simp add: slice_def)

lemma be_nat_32: "length bs \<le> 32 \<Longrightarrow> be_nat bs < 2 ^ 256"
proof -
  assume a: "length bs \<le> 32"
  have "be_nat bs < 256 ^ length bs" by (rule be_nat_bound)
  also have "(256::nat) ^ length bs \<le> 256 ^ 32" using a by (intro power_increasing) auto
  also have "(256::nat) ^ 32 = 2 ^ 256" by simp
  finally show ?thesis .
qed

lemma w256_of_nat_eq_128: "n < 2 ^ 256 \<Longrightarrow> (word_of_nat n :: uint256) = 128 \<longleftrightarrow> n = 128"
proof -
  assume a: "n < 2 ^ 256"
  have "(word_of_nat n :: uint256) = 128 \<longleftrightarrow> unat (word_of_nat n :: uint256) = unat (128 :: uint256)"
    by (metis unsigned_word_eqI)
  then show ?thesis using a by (simp add: unat_of_nat)
qed

lemma ucast_256_64_of_nat: "(ucast (word_of_nat n :: 256 word) :: 64 word) = word_of_nat n"
proof -
  have "unat (ucast (word_of_nat n :: 256 word) :: 64 word) = unat (word_of_nat n :: 64 word)"
    by (simp add: unsigned_ucast_eq unsigned_of_nat)
  then show ?thesis by (rule unsigned_word_eqI)
qed

lemma u256_Uint64_of_nat: "u256_Uint64 (word_of_nat n) = word_of_nat n"
  by (simp add: u256_Uint64_def ucast_256_64_of_nat)

lemma u256_IsUint64_of_nat: "n < 2 ^ 256 \<Longrightarrow> u256_IsUint64 (word_of_nat n) \<longleftrightarrow> n < 2 ^ 64"
  by (simp add: u256_IsUint64_def unat_of_nat)

lemma big_IsUint64_int: "big_IsUint64 (int n) \<longleftrightarrow> n < 2 ^ 64"
proof -
  have "int n < 2 ^ 64 \<longleftrightarrow> n < 2 ^ 64"
    by (metis of_nat_less_iff of_nat_numeral of_nat_power)
  then show ?thesis by (simp add: big_IsUint64_def)
qed

lemma big_Uint64_int: "big_Uint64 (int n) = word_of_nat n"
  by (simp add: big_Uint64_def)

lemma UnmarshalLogEvent_unfold:
  "UnmarshalLogEvent keccak blockNum txIndex ev =
    (if length (Topics ev) \<noteq> 3 then (None, Some ErrTopicCount)
     else if Topics ev ! 0 \<noteq> DepositEventABIHash keccak
       then (None, Some (ErrSelector (Topics ev ! 0) (DepositEventABIHash keccak)))
     else if length (Log.Data ev) < 192
       then (None, Some (ErrDataTooSmall (length (Log.Data ev)) (Log.Data ev)))
     else if \<not> be_nat (slice (Log.Data ev) 64 96) < 2 ^ 64
       then (None, Some (ErrBadGas (slice (Log.Data ev) 64 96)))
     else if be_nat (slice (Log.Data ev) 128 160) = 128
       then (None, Some (ErrDataOffset 128))
     else if \<not> be_nat (slice (Log.Data ev) 160 192) < 2 ^ 64
       then (None, Some (ErrDataTooLarge (word_of_nat (be_nat (slice (Log.Data ev) 160 192)))))
     else if (word_of_nat (be_nat (slice (Log.Data ev) 160 192)) :: uint64)
               > word_of_nat (length (Log.Data ev)) - 192
       then (None, Some (ErrDataLenTooLong (word_of_nat (be_nat (slice (Log.Data ev) 160 192)))
               (word_of_nat (length (Log.Data ev)) - 192)))
     else (Some \<lparr>BlockHeight = blockNum, TransactionIndex = txIndex,
             From = BytesToAddress (drop 12 (Hash_Bytes (Topics ev ! 1))),
             To = (if Log.Data ev ! 127 = 0
                   then Some (BytesToAddress (drop 12 (Hash_Bytes (Topics ev ! 2)))) else None),
             Mint = (if be_nat (slice (Log.Data ev) 32 64) = 0 then None
                     else Some (int (be_nat (slice (Log.Data ev) 32 64)))),
             Value = Some (int (be_nat (slice (Log.Data ev) 0 32))),
             Gas = word_of_nat (be_nat (slice (Log.Data ev) 64 96)),
             Data = slice (Log.Data ev) 192
                      (unat (192 + (word_of_nat (be_nat (slice (Log.Data ev) 160 192)) :: uint64)))\<rparr>,
           None))"
proof -
  have b128: "be_nat (slice (Log.Data ev) 128 160) < 2 ^ 256"
    and b160: "be_nat (slice (Log.Data ev) 160 192) < 2 ^ 256"
    by (rule be_nat_32, simp add: length_slice)+
  show ?thesis
    unfolding UnmarshalLogEvent_def Let_def
    by (simp add: zero_DepositTx_def big_SetBytes_def u256_SetBytes_def big_IsUint64_int
        big_Uint64_int w256_of_nat_eq_128[OF b128] u256_IsUint64_of_nat[OF b160]
        u256_Uint64_of_nat)
qed

section \<open>Facts about the decoder\<close>

lemma unat_maxExpectedLen:
  "192 \<le> n \<Longrightarrow> n < 2 ^ 63 \<Longrightarrow> unat ((word_of_nat n :: uint64) - 192) = n - 192"
proof -
  assume a: "192 \<le> n" and b: "n < 2 ^ 63"
  have u: "unat (word_of_nat n :: uint64) = n" using b by (simp add: unat_of_nat)
  have "(192 :: uint64) \<le> word_of_nat n" using a u by (simp add: word_le_nat_alt)
  then have "unat ((word_of_nat n :: uint64) - 192) = unat (word_of_nat n :: uint64) - unat (192 :: uint64)"
    by (rule unat_sub)
  then show ?thesis using u by simp
qed

lemma dataLen_gt_iff:
  "192 \<le> n \<Longrightarrow> n < 2 ^ 63 \<Longrightarrow> m < 2 ^ 64 \<Longrightarrow>
     (word_of_nat n - 192 < (word_of_nat m :: uint64)) \<longleftrightarrow> n - 192 < m"
  by (simp add: word_less_nat_alt unat_maxExpectedLen unat_of_nat)

lemma unat_data_end:
  "192 \<le> n \<Longrightarrow> n < 2 ^ 63 \<Longrightarrow> m \<le> n - 192 \<Longrightarrow> unat (192 + (word_of_nat m :: uint64)) = 192 + m"
proof -
  assume a: "192 \<le> n" and b: "n < 2 ^ 63" and c: "m \<le> n - 192"
  have m: "m < 2 ^ 63" using b c by linarith
  have um: "unat (word_of_nat m :: uint64) = m" using m by (simp add: unat_of_nat)
  have "unat (192 :: uint64) + unat (word_of_nat m :: uint64) < 2 ^ LENGTH(64)"
    using um m by simp
  then have "unat (192 + (word_of_nat m :: uint64)) = unat (192 :: uint64) + unat (word_of_nat m :: uint64)"
    by (simp only: unat_add_lem)
  then show ?thesis using um by simp
qed

lemma last_slice_flag: "128 \<le> length d \<Longrightarrow> last (slice d 96 128) = d ! 127"
  by (simp add: slice_def last_conv_nth)

lemma length_deposit_payload: "length (deposit_payload v m g c off n rest) = 192 + length rest"
  by (simp add: deposit_payload_def length_be_bytes)

lemma slice_deposit_payload:
  "slice (deposit_payload v m g c off n rest) 0 32 = be_bytes 32 v"
  "slice (deposit_payload v m g c off n rest) 32 64 = be_bytes 32 m"
  "slice (deposit_payload v m g c off n rest) 64 96 = be_bytes 32 g"
  "slice (deposit_payload v m g c off n rest) 96 128 = be_bytes 32 c"
  "slice (deposit_payload v m g c off n rest) 128 160 = be_bytes 32 off"
  "slice (deposit_payload v m g c off n rest) 160 192 = be_bytes 32 n"
  "slice (deposit_payload v m g c off n rest) 192 hi = take (hi - 192) rest"
  by (simp_all add: deposit_payload_def slice_def length_be_bytes)

lemma keccak_known_ABI: "DepositEventABIHash keccak_known = 0x26137a5e34446f63aa9ea28797a0e70c3987720913879898802dd60b944615ad"
  by (simp add: DepositEventABIHash_def keccak_known_def)

lemma drop_be_bytes: "k \<le> n \<Longrightarrow> drop k (be_bytes n x) = be_bytes (n - k) x"
proof (induction n arbitrary: x)
  case 0
  then show ?case by simp
next
  case (Suc n)
  show ?case
  proof (cases "k \<le> n")
    case True
    then show ?thesis using Suc.IH[of "x div 256"] by (simp add: length_be_bytes Suc_diff_le)
  next
    case False
    with Suc.prems have "k = Suc n" by simp
    then show ?thesis by (simp add: length_be_bytes)
  qed
qed

lemma address_of_topic: "BytesToAddress (drop 12 (Hash_Bytes h)) = ucast h"
proof -
  have d: "drop 12 (Hash_Bytes h) = be_bytes 20 (unat h)"
    by (simp add: Hash_Bytes_def drop_be_bytes)
  have "unat (word_of_nat (unat h mod 256 ^ 20) :: Address) = unat (ucast h :: Address)"
    by (simp add: unat_of_nat unsigned_ucast_eq take_bit_eq_mod)
  then have "(word_of_nat (unat h mod 256 ^ 20) :: Address) = ucast h"
    by (rule unsigned_word_eqI)
  then show ?thesis
    by (simp add: BytesToAddress_def d length_be_bytes be_nat_be_bytes)
qed

lemma last_be_bytes: "last (be_bytes (Suc n) x) = of_nat (x mod 256)"
  by simp

lemma flag_deposit_payload: "deposit_payload v m g c off n rest ! 127 = of_nat (c mod 256)"
proof -
  have "deposit_payload v m g c off n rest ! 127 = last (slice (deposit_payload v m g c off n rest) 96 128)"
    by (simp add: last_slice_flag length_deposit_payload)
  also have "\<dots> = last (be_bytes (Suc 31) c)"
    by (simp add: slice_deposit_payload)
  finally show ?thesis by (simp only: last_be_bytes)
qed

lemma ev_ok_decodes:
  "UnmarshalLogEvent keccak_known h t ev_ok =
     (Some \<lparr>BlockHeight = h, TransactionIndex = t, From = 0x1111, To = Some 0x2222, Mint = None,
        Value = Some 5, Gas = 21000, Data = [1, 2, 3]\<rparr>, None)"
  unfolding UnmarshalLogEvent_unfold
  by (simp add: ev_ok_def keccak_known_ABI length_deposit_payload slice_deposit_payload
      be_nat_be_bytes flag_deposit_payload address_of_topic)

lemma ev_offset128_fails:
  "UnmarshalLogEvent keccak_known h t ev_offset128 = (None, Some (ErrDataOffset 128))"
  unfolding UnmarshalLogEvent_unfold
  by (simp add: ev_ok_def ev_offset128_def keccak_known_ABI length_deposit_payload
      slice_deposit_payload be_nat_be_bytes)

lemma ev_mint_create_decodes:
  "UnmarshalLogEvent keccak_known h t ev_mint_create =
     (Some \<lparr>BlockHeight = h, TransactionIndex = t, From = 0x1111, To = None, Mint = Some 9,
        Value = Some 0, Gas = 21000, Data = []\<rparr>, None)"
  unfolding UnmarshalLogEvent_unfold
  by (simp add: ev_ok_def ev_mint_create_def keccak_known_ABI length_deposit_payload
      slice_deposit_payload be_nat_be_bytes flag_deposit_payload address_of_topic)

lemma UnmarshalLogEvent_cases:
  "(\<exists>dep. UnmarshalLogEvent keccak b t ev = (Some dep, None)) \<or>
   (\<exists>e. UnmarshalLogEvent keccak b t ev = (None, Some e) \<and> MalformedEvent e)"
  unfolding UnmarshalLogEvent_unfold by simp

lemma UnmarshalLogEvent_error_indep:
  "snd (UnmarshalLogEvent keccak b t ev) = snd (UnmarshalLogEvent keccak b' t' ev)"
  unfolding UnmarshalLogEvent_unfold by simp

lemma UnmarshalLogEvent_index:
  "UnmarshalLogEvent keccak b t ev = (Some dep, None) \<Longrightarrow> BlockHeight dep = b \<and> TransactionIndex dep = t"
  unfolding UnmarshalLogEvent_unfold by (auto split: if_splits)

lemma UnmarshalLogEvent_positions:
  "UnmarshalLogEvent keccak b t (ev\<lparr>TxIndex := x, Index := y\<rparr>) = UnmarshalLogEvent keccak b t ev"
  unfolding UnmarshalLogEvent_unfold by simp

section \<open>Facts about the loops of DeriveUserDeposits\<close>

lemma find_append_cases:
  "find P (xs @ ys) = (case find P xs of None \<Rightarrow> find P ys | Some x \<Rightarrow> Some x)"
  by (induction xs) auto

lemma length_decode_from: "length (decode_from keccak h n lgs) = length lgs"
  by (induction lgs arbitrary: n) auto

lemma decode_from_append:
  "decode_from keccak h n (xs @ ys) =
     decode_from keccak h n xs @ decode_from keccak h (n + length xs) ys"
  by (induction xs arbitrary: n) auto

lemma decode_from_nth:
  "i < length lgs \<Longrightarrow>
     decode_from keccak h n lgs ! i = UnmarshalLogEvent keccak h (of_nat (n + i) + 1) (lgs ! i)"
proof (induction lgs arbitrary: n i)
  case Nil
  then show ?case by simp
next
  case (Cons lg lgs)
  show ?case
  proof (cases i)
    case 0
    then show ?thesis by simp
  next
    case (Suc j)
    then have "j < length lgs" using Cons.prems by simp
    then show ?thesis using Cons.IH[of j "Suc n"] Suc by simp
  qed
qed

lemma logs_loop_char:
  "logs_loop keccak h logs out =
     (case find (\<lambda>r. snd r \<noteq> None)
             (decode_from keccak h (length out)
               (filter (\<lambda>lg. Log.Address lg = DepositContractAddr) logs)) of
        None \<Rightarrow> Continue (out @ map fst (decode_from keccak h (length out)
               (filter (\<lambda>lg. Log.Address lg = DepositContractAddr) logs)))
      | Some r \<Rightarrow> Return ([], Some (ErrMalformattedLog (the (snd r)))))"
proof (induction logs arbitrary: out)
  case Nil
  show ?case by simp
next
  case (Cons lg logs)
  show ?case
  proof (cases "Log.Address lg = DepositContractAddr")
    case False
    then show ?thesis using Cons[of out] by (simp split: option.split)
  next
    case True
    obtain dep err where u: "UnmarshalLogEvent keccak h (of_nat (length out) + 1) lg = (dep, err)"
      by (cases "UnmarshalLogEvent keccak h (of_nat (length out) + 1) lg") auto
    show ?thesis
    proof (cases err)
      case None
      then show ?thesis using True u Cons[of "out @ [dep]"] by (simp split: option.split)
    next
      case (Some e)
      then show ?thesis using True u by simp
    qed
  qed
qed

lemma kept_logs_Cons:
  "kept_logs (rc # receipts) =
     (if Status rc = ReceiptStatusSuccessful
      then filter (\<lambda>lg. Log.Address lg = DepositContractAddr) (Logs rc) else []) @
     kept_logs receipts"
  by (simp add: kept_logs_def)

lemma receipts_loop_char:
  "receipts_loop keccak h receipts out =
     (case find (\<lambda>r. snd r \<noteq> None) (decode_from keccak h (length out) (kept_logs receipts)) of
        None \<Rightarrow> Continue (out @ map fst (decode_from keccak h (length out) (kept_logs receipts)))
      | Some r \<Rightarrow> Return ([], Some (ErrMalformattedLog (the (snd r)))))"
proof (induction receipts arbitrary: out)
  case Nil
  show ?case by (simp add: kept_logs_def)
next
  case (Cons rc receipts)
  show ?case
  proof (cases "Status rc = ReceiptStatusSuccessful")
    case False
    then show ?thesis using Cons[of out] by (simp add: kept_logs_Cons split: option.split)
  next
    case True
    let ?A = "decode_from keccak h (length out)
                (filter (\<lambda>lg. Log.Address lg = DepositContractAddr) (Logs rc))"
    show ?thesis
    proof (cases "find (\<lambda>r. snd r \<noteq> None) ?A")
      case None
      then show ?thesis
        using True Cons[of "out @ map fst ?A"]
        by (simp add: kept_logs_Cons logs_loop_char decode_from_append find_append_cases
            length_decode_from split: option.split)
    next
      case (Some r)
      then show ?thesis
        using True
        by (simp add: kept_logs_Cons logs_loop_char decode_from_append find_append_cases)
    qed
  qed
qed

lemma DeriveUserDeposits_char:
  "DeriveUserDeposits keccak h receipts =
     (case find (\<lambda>r. snd r \<noteq> None) (decode_from keccak h 0 (kept_logs receipts)) of
        None \<Rightarrow> (map fst (decode_from keccak h 0 (kept_logs receipts)), None)
      | Some r \<Rightarrow> ([], Some (ErrMalformattedLog (the (snd r)))))"
  by (simp add: DeriveUserDeposits_def receipts_loop_char split: option.split)

lemma DeriveUserDeposits_ok_iff:
  "DeriveUserDeposits keccak h receipts = (out, None) \<longleftrightarrow>
     length out = length (kept_logs receipts) \<and>
     (\<forall>i<length (kept_logs receipts). \<exists>dep. out ! i = Some dep \<and>
        UnmarshalLogEvent keccak h (of_nat i + 1) (kept_logs receipts ! i) = (Some dep, None))"
  (is "?L \<longleftrightarrow> ?R")
proof
  let ?rs = "decode_from keccak h 0 (kept_logs receipts)"
  assume L: ?L
  have f: "find (\<lambda>r. snd r \<noteq> None) ?rs = None"
    using L by (simp add: DeriveUserDeposits_char split: option.splits)
  then have out: "out = map fst ?rs"
    using L by (simp add: DeriveUserDeposits_char)
  have all: "\<forall>r\<in>set ?rs. snd r = None"
    using f by (auto simp: find_None_iff)
  show ?R
  proof (intro conjI allI impI)
    show "length out = length (kept_logs receipts)"
      by (simp add: out length_decode_from)
  next
    fix i assume i: "i < length (kept_logs receipts)"
    have nth: "?rs ! i = UnmarshalLogEvent keccak h (of_nat i + 1) (kept_logs receipts ! i)"
      using i by (simp add: decode_from_nth)
    have "?rs ! i \<in> set ?rs" using i by (simp add: length_decode_from)
    then have "snd (?rs ! i) = None" using all by blast
    then obtain dep where "?rs ! i = (Some dep, None)"
      using UnmarshalLogEvent_cases[of keccak h "of_nat i + 1" "kept_logs receipts ! i"] nth
      by auto
    then show "\<exists>dep. out ! i = Some dep \<and>
        UnmarshalLogEvent keccak h (of_nat i + 1) (kept_logs receipts ! i) = (Some dep, None)"
      using nth out i by (simp add: length_decode_from)
  qed
next
  let ?rs = "decode_from keccak h 0 (kept_logs receipts)"
  assume R: ?R
  have nth: "\<And>i. i < length (kept_logs receipts) \<Longrightarrow> ?rs ! i = (out ! i, None)"
    using R by (auto simp: decode_from_nth)
  have "\<forall>r\<in>set ?rs. snd r = None"
    using nth by (auto simp: in_set_conv_nth length_decode_from)
  then have f: "find (\<lambda>r. snd r \<noteq> None) ?rs = None"
    by (auto simp: find_None_iff)
  have "map fst ?rs = out"
    using R nth by (intro nth_equalityI) (simp_all add: length_decode_from)
  then show ?L using f by (simp add: DeriveUserDeposits_char)
qed

lemma kept_logs_successful:
  "kept_logs (filter (\<lambda>rc. Status rc = ReceiptStatusSuccessful) receipts) = kept_logs receipts"
  by (simp add: kept_logs_def)

lemma kept_logs_positions:
  "kept_logs (map (\<lambda>rc. rc\<lparr>Logs := map (\<lambda>lg. lg\<lparr>TxIndex := f lg, Index := g lg\<rparr>) (Logs rc)\<rparr>) receipts) =
     map (\<lambda>lg. lg\<lparr>TxIndex := f lg, Index := g lg\<rparr>) (kept_logs receipts)"
  by (induction receipts) (simp_all add: kept_logs_Cons kept_logs_def filter_map comp_def)

lemma decode_from_positions:
  "decode_from keccak h n (map (\<lambda>lg. lg\<lparr>TxIndex := f lg, Index := g lg\<rparr>) lgs) =
     decode_from keccak h n lgs"
  by (induction lgs arbitrary: n) (simp_all add: UnmarshalLogEvent_positions)

lemma unat_index: "i < n \<Longrightarrow> n < 2 ^ 64 \<Longrightarrow> unat (of_nat i + 1 :: uint64) = i + 1"
proof -
  assume "i < n" "n < 2 ^ 64"
  then have "i + 1 < 2 ^ 64" by simp
  then have "unat (of_nat (i + 1) :: uint64) = i + 1" by (simp add: unat_of_nat del: of_nat_add of_nat_Suc)
  then show ?thesis by (simp add: add.commute)
qed

section \<open>Facts about DeriveL1InfoDeposit and DeriveBlockInputs\<close>

lemma length_Hash_Bytes: "length (Hash_Bytes h) = 32"
  by (simp add: Hash_Bytes_def length_be_bytes)

lemma length_L1InfoFuncBytes4: "length (L1InfoFuncBytes4 keccak) = 4"
  by (simp add: L1InfoFuncBytes4_def length_slice length_Hash_Bytes)

lemma DeriveL1InfoDeposit_Some:
  assumes fee: "BaseFee block = Some fee" "\<bar>fee\<bar> < 2 ^ 256"
  shows "DeriveL1InfoDeposit keccak block =
    Returns \<lparr>BlockHeight = NumberU64 block, TransactionIndex = 0,
      From = DepositContractAddr, To = Some L1InfoPredeployAddr, Mint = None,
      Value = Some 0, Gas = 99999999,
      Data = L1InfoFuncBytes4 keccak @ be_bytes 8 (unat (NumberU64 block)) @
             be_bytes 8 (unat (Time block)) @ be_bytes 32 (nat \<bar>fee\<bar>) @
             Hash_Bytes (Hash block)\<rparr>"
proof -
  have n: "nat \<bar>fee\<bar> < 256 ^ 32"
  proof -
    have "nat \<bar>fee\<bar> < nat (2 ^ 256)" using fee(2) by (simp add: nat_less_iff)
    also have "nat (2 ^ 256) = (256::nat) ^ 32" by simp
    finally show ?thesis .
  qed
  show ?thesis
    unfolding DeriveL1InfoDeposit_def Let_def
    using n
    by (simp add: fee(1) FillBytes_def copy_to_def PutUint64_def update_range_def
        length_L1InfoFuncBytes4 length_Hash_Bytes length_be_bytes)
qed

lemma DeriveL1InfoDeposit_Panics:
  "BaseFee block = None \<or> (\<exists>fee. BaseFee block = Some fee \<and> 2 ^ 256 \<le> \<bar>fee\<bar>) \<Longrightarrow>
     DeriveL1InfoDeposit keccak block = Panics"
proof -
  assume a: "BaseFee block = None \<or> (\<exists>fee. BaseFee block = Some fee \<and> 2 ^ 256 \<le> \<bar>fee\<bar>)"
  have "FillBytes (BaseFee block) d 20 52 = Panics" for d
  proof (cases "BaseFee block")
    case None
    then show ?thesis by (simp add: FillBytes_def)
  next
    case (Some fee)
    then have "2 ^ 256 \<le> \<bar>fee\<bar>" using a by simp
    then have "\<not> nat \<bar>fee\<bar> < nat (2 ^ 256)" by (simp add: nat_less_iff)
    moreover have "nat (2 ^ 256) = (256::nat) ^ 32" by simp
    ultimately show ?thesis using Some by (simp add: FillBytes_def)
  qed
  then show ?thesis
    unfolding DeriveL1InfoDeposit_def Let_def by simp
qed

lemma DeriveL1InfoDeposit_accessors:
  "NumberU64 b1 = NumberU64 b2 \<Longrightarrow> Time b1 = Time b2 \<Longrightarrow> Hash b1 = Hash b2 \<Longrightarrow>
     BaseFee b1 = BaseFee b2 \<Longrightarrow> DeriveL1InfoDeposit keccak b1 = DeriveL1InfoDeposit keccak b2"
  by (simp add: DeriveL1InfoDeposit_def Let_def split: outcome.split)

lemma encode_loop_Continue:
  "encode_loop marshal txs i acc = Returns (Continue out) \<Longrightarrow>
     \<exists>ts. txs = map Some ts \<and> out = acc @ map (\<lambda>t. fst (marshal t)) ts \<and>
          (\<forall>t\<in>set ts. snd (marshal t) = None)"
proof (induction txs arbitrary: i acc)
  case Nil
  then show ?case by simp
next
  case (Cons tx txs)
  from Cons.prems obtain t where tx: "tx = Some t"
    by (cases tx) auto
  obtain b e where m: "marshal t = (b, e)" by (cases "marshal t") auto
  from Cons.prems tx m have e: "e = None" by (cases e) auto
  from Cons.prems tx m e have "encode_loop marshal txs (i + 1) (acc @ [b]) = Returns (Continue out)"
    by simp
  from Cons.IH[OF this] obtain ts where
    ts: "txs = map Some ts" "out = (acc @ [b]) @ map (\<lambda>t. fst (marshal t)) ts"
        "\<forall>t\<in>set ts. snd (marshal t) = None" by blast
  show ?case
  proof (intro exI[of _ "t # ts"] conjI)
    show "tx # txs = map Some (t # ts)" using tx ts(1) by simp
    show "out = acc @ map (\<lambda>t. fst (marshal t)) (t # ts)" using ts(2) m by simp
    show "\<forall>t\<in>set (t # ts). snd (marshal t) = None" using ts(3) m e by simp
  qed
qed

lemma encode_loop_Return:
  "encode_loop marshal txs i acc = Returns (Return r) \<Longrightarrow> \<exists>j. r = (None, Some (ErrEncodeUserTx j))"
proof (induction txs arbitrary: i acc)
  case Nil
  then show ?case by simp
next
  case (Cons tx txs)
  then show ?case
    by (auto split: option.splits prod.splits)
qed

lemma DeriveBlockInputs_all_or_nothing:
  "DeriveBlockInputs keccak deriveSha marshal block receipts = Returns (pa, err) \<Longrightarrow>
     (err \<noteq> None \<longrightarrow> pa = None) \<and> (err = None \<longrightarrow> pa \<noteq> None)"
  unfolding DeriveBlockInputs_def
  by (auto split: if_splits outcome.splits prod.splits option.splits flow.splits
      dest: encode_loop_Return)

section \<open>Further facts shared by the claims\<close>

lemma UnmarshalLogEvent_Data_at_192:
  assumes len: "length (Log.Data ev) < 2 ^ 63"
    and ok: "UnmarshalLogEvent keccak blockNum txIndex ev = (Some dep, None)"
  shows "DepositTx.Data dep =
           take (be_nat (slice (Log.Data ev) 160 192)) (drop 192 (Log.Data ev))"
    and "be_nat (slice (Log.Data ev) 160 192) \<le> length (Log.Data ev) - 192"
proof -
  let ?d = "Log.Data ev" and ?n = "be_nat (slice (Log.Data ev) 160 192)"
  have l: "192 \<le> length ?d" and n64: "?n < 2 ^ 64"
    using ok unfolding UnmarshalLogEvent_unfold by (simp_all split: if_splits)
  show le: "?n \<le> length ?d - 192"
    using ok l n64 len unfolding UnmarshalLogEvent_unfold
    by (simp add: dataLen_gt_iff split: if_splits)
  have e: "unat (192 + (word_of_nat ?n :: uint64)) = 192 + ?n"
    using l len le by (rule unat_data_end)
  have d: "DepositTx.Data dep = slice ?d 192 (192 + ?n)"
    using ok unfolding UnmarshalLogEvent_unfold e by (auto split: if_splits)
  show "DepositTx.Data dep = take ?n (drop 192 ?d)" using d by (simp add: slice_def)
qed

lemma UnmarshalLogEvent_dataOffset_indep:
  assumes off: "length off = 32" "be_nat off \<noteq> 128"
    and l: "192 \<le> length (Log.Data ev)"
    and orig: "be_nat (slice (Log.Data ev) 128 160) \<noteq> 128"
  shows "UnmarshalLogEvent keccak blockNum txIndex
           (ev\<lparr>Log.Data := take 128 (Log.Data ev) @ off @ drop 160 (Log.Data ev)\<rparr>) =
         UnmarshalLogEvent keccak blockNum txIndex ev"
proof -
  let ?d = "Log.Data ev" and ?d' = "take 128 (Log.Data ev) @ off @ drop 160 (Log.Data ev)"
  have s: "slice ?d' 0 32 = slice ?d 0 32" "slice ?d' 32 64 = slice ?d 32 64"
    "slice ?d' 64 96 = slice ?d 64 96" "slice ?d' 128 160 = off"
    "slice ?d' 160 192 = slice ?d 160 192"
    using off l by (simp_all add: slice_def drop_take)
  have t: "\<And>hi. slice ?d' 192 hi = slice ?d 192 hi"
    using off l by (simp add: slice_def)
  have n: "?d' ! 127 = ?d ! 127" using l by (simp add: nth_append)
  show ?thesis
    unfolding UnmarshalLogEvent_unfold using off orig l
    by (simp add: s t n)
qed

lemma decoded_not_128:
  "UnmarshalLogEvent keccak blockNum txIndex ev = (Some dep, None) \<Longrightarrow>
     192 \<le> length (Log.Data ev) \<and> be_nat (slice (Log.Data ev) 128 160) \<noteq> 128"
  unfolding UnmarshalLogEvent_unfold by (simp split: if_splits)

lemma Address_fixtures:
  "Log.Address ev_ok = DepositContractAddr"
  "Log.Address ev_offset128 = DepositContractAddr"
  "Log.Address ev_mint_create = DepositContractAddr"
  "(0x1234 :: Address) \<noteq> DepositContractAddr"
  by (simp_all add: ev_ok_def ev_offset128_def ev_mint_create_def DepositContractAddr_def)

lemma kept_logs_receipts_ok: "kept_logs receipts_ok = [ev_ok, ev_mint_create]"
  by (simp add: kept_logs_def receipts_ok_def ReceiptStatusSuccessful_def Address_fixtures)

lemma kept_logs_receipts_bad: "kept_logs receipts_bad = [ev_ok, ev_offset128, ev_ok]"
  by (simp add: kept_logs_def receipts_bad_def ReceiptStatusSuccessful_def Address_fixtures)

lemma receipts_ok_derives:
  "DeriveUserDeposits keccak_known h receipts_ok =
     ([Some \<lparr>BlockHeight = h, TransactionIndex = 1, From = 0x1111, To = Some 0x2222, Mint = None,
          Value = Some 5, Gas = 21000, Data = [1, 2, 3]\<rparr>,
       Some \<lparr>BlockHeight = h, TransactionIndex = 2, From = 0x1111, To = None, Mint = Some 9,
          Value = Some 0, Gas = 21000, Data = []\<rparr>], None)"
  by (simp add: DeriveUserDeposits_def receipts_ok_def ReceiptStatusSuccessful_def Address_fixtures
      ev_ok_decodes ev_mint_create_decodes)

lemma receipts_bad_derives:
  "DeriveUserDeposits keccak_known h receipts_bad =
     ([], Some (ErrMalformattedLog (ErrDataOffset 128)))"
  by (simp add: DeriveUserDeposits_def receipts_bad_def ReceiptStatusSuccessful_def Address_fixtures
      ev_ok_decodes ev_offset128_fails)

lemma first_error_cong:
  "map snd rs = map snd rs' \<Longrightarrow>
     map_option snd (find (\<lambda>r. snd r \<noteq> None) rs) = map_option snd (find (\<lambda>r. snd r \<noteq> None) rs')"
proof (induction rs arbitrary: rs')
  case Nil
  then show ?case by simp
next
  case (Cons r rs)
  then obtain r' rs'' where "rs' = r' # rs''" by (cases rs') auto
  then show ?case using Cons by auto
qed

lemma decode_from_errors_indep:
  "map snd (decode_from keccak h n lgs) = map snd (decode_from keccak h' n' lgs)"
proof (induction lgs arbitrary: n n')
  case Nil
  show ?case by simp
next
  case (Cons lg lgs)
  show ?case
    using Cons[of "Suc n" "Suc n'"]
      UnmarshalLogEvent_error_indep[of keccak h "of_nat n + 1" lg h' "of_nat n' + 1"]
    by simp
qed

lemma DeriveUserDeposits_error_indep:
  "snd (DeriveUserDeposits keccak h receipts) = snd (DeriveUserDeposits keccak h' receipts)"
proof -
  let ?a = "decode_from keccak h 0 (kept_logs receipts)"
  let ?b = "decode_from keccak h' 0 (kept_logs receipts)"
  have m: "map_option snd (find (\<lambda>r. snd r \<noteq> None) ?a) = map_option snd (find (\<lambda>r. snd r \<noteq> None) ?b)"
    by (rule first_error_cong) (rule decode_from_errors_indep)
  show ?thesis
  proof (cases "find (\<lambda>r. snd r \<noteq> None) ?a")
    case None
    then have "find (\<lambda>r. snd r \<noteq> None) ?b = None" using m by simp
    then show ?thesis using None by (simp add: DeriveUserDeposits_char)
  next
    case (Some r)
    then obtain r' where "find (\<lambda>r. snd r \<noteq> None) ?b = Some r'" "snd r' = snd r"
      using m by (cases "find (\<lambda>r. snd r \<noteq> None) ?b") auto
    then show ?thesis using Some by (simp add: DeriveUserDeposits_char)
  qed
qed

lemma decode_from_set:
  "r \<in> set (decode_from keccak h n lgs) \<Longrightarrow> \<exists>t lg. r = UnmarshalLogEvent keccak h t lg"
  by (induction lgs arbitrary: n) auto

lemma DeriveUserDeposits_error_shape:
  assumes "snd (DeriveUserDeposits keccak h receipts) = Some e"
  shows "(\<exists>e'. e = ErrMalformattedLog e' \<and> MalformedEvent e') \<and>
         fst (DeriveUserDeposits keccak h receipts) = []"
proof -
  let ?rs = "decode_from keccak h 0 (kept_logs receipts)"
  obtain r where f: "find (\<lambda>r. snd r \<noteq> None) ?rs = Some r"
    using assms by (cases "find (\<lambda>r. snd r \<noteq> None) ?rs") (simp_all add: DeriveUserDeposits_char)
  then have r: "r \<in> set ?rs" "snd r \<noteq> None"
    by (auto simp: find_Some_iff)
  then obtain t lg where "r = UnmarshalLogEvent keccak h t lg"
    using decode_from_set by blast
  then obtain e' where "r = (None, Some e')" "MalformedEvent e'"
    using UnmarshalLogEvent_cases[of keccak h t lg] r(2) by auto
  then show ?thesis using f assms by (auto simp: DeriveUserDeposits_char)
qed

lemma block100_L1Info:
  "DeriveL1InfoDeposit keccak_known block100 =
     Returns \<lparr>BlockHeight = 100, TransactionIndex = 0,
       From = DepositContractAddr, To = Some L1InfoPredeployAddr, Mint = None,
       Value = Some 0, Gas = 99999999,
       Data = L1InfoFuncBytes4 keccak_known @ be_bytes 8 100 @ be_bytes 8 1000 @ be_bytes 32 7 @
              Hash_Bytes 0xAAAAAAAAAAAAAAAAAAAAAAAAAAAAAAAAAAAAAAAAAAAAAAAAAAAAAAAAAAAAAAAA\<rparr>"
proof -
  have "BaseFee block100 = Some 7" "\<bar>7 :: int\<bar> < 2 ^ 256" by (simp_all add: block100_def)
  from DeriveL1InfoDeposit_Some[OF this, of keccak_known] show ?thesis
    by (simp add: block100_def)
qed

lemma block100_derives:
  "DeriveBlockInputs keccak_known deriveSha_count marshal_plain block100 receipts_ok =
     Returns (Some \<lparr>Timestamp = 1000, Random = 0x55, SuggestedFeeRecipient = 0,
       Transactions =
         [126 # (L1InfoFuncBytes4 keccak_known @ be_bytes 8 100 @ be_bytes 8 1000 @ be_bytes 32 7 @
            Hash_Bytes 0xAAAAAAAAAAAAAAAAAAAAAAAAAAAAAAAAAAAAAAAAAAAAAAAAAAAAAAAAAAAAAAAA),
          [126, 1, 2, 3], [126]]\<rparr>, None)"
proof -
  have c: "CheckReceipts deriveSha_count block100 receipts_ok"
    by (simp add: CheckReceipts_def deriveSha_count_def block100_def receipts_ok_def)
  have n: "NumberU64 block100 = 100" "Time block100 = 1000" "MixDigest block100 = 0x55"
    by (simp_all add: block100_def)
  show ?thesis
    unfolding DeriveBlockInputs_def
    by (simp add: c n block100_L1Info receipts_ok_derives marshal_plain_def)
qed

text \<open>
  Every index and slice expression of \<open>UnmarshalLogEvent\<close> is in range when it is reached
  (three topics, at least 192 bytes of payload, a payload length that a Go slice can have),
  so the decoder does not panic and \<open>slice\<close> and \<open>!\<close> are Go's \<open>xs[lo:hi]\<close> and \<open>xs[i]\<close>
  there.
\<close>

lemma UnmarshalLogEvent_accesses_in_range:
  assumes t: "length (Topics ev) = 3" and l: "192 \<le> length (Log.Data ev)"
    and len: "length (Log.Data ev) < 2 ^ 63"
  shows "0 < length (Topics ev) \<and> 1 < length (Topics ev) \<and> 2 < length (Topics ev)"
    and "12 \<le> length (Hash_Bytes (Topics ev ! 1)) \<and> 12 \<le> length (Hash_Bytes (Topics ev ! 2))"
    and "\<forall>lo\<in>{0, 32, 64, 128, 160}. lo + 32 \<le> length (Log.Data ev)"
    and "unat (96 + 31 :: uint64) < length (Log.Data ev)"
    and "u256_Uint64 (u256_SetBytes (slice (Log.Data ev) 160 192))
           \<le> (of_nat (length (Log.Data ev)) :: uint64) - 192 \<Longrightarrow>
         192 \<le> unat (192 + u256_Uint64 (u256_SetBytes (slice (Log.Data ev) 160 192))) \<and>
         unat (192 + u256_Uint64 (u256_SetBytes (slice (Log.Data ev) 160 192)))
           \<le> length (Log.Data ev)"
proof -
  show "0 < length (Topics ev) \<and> 1 < length (Topics ev) \<and> 2 < length (Topics ev)"
    using t by simp
  show "12 \<le> length (Hash_Bytes (Topics ev ! 1)) \<and> 12 \<le> length (Hash_Bytes (Topics ev ! 2))"
    by (simp add: length_Hash_Bytes)
  show "\<forall>lo\<in>{0, 32, 64, 128, 160}. lo + 32 \<le> length (Log.Data ev)"
    using l by simp
  show "unat (96 + 31 :: uint64) < length (Log.Data ev)"
    using l by simp
  let ?w = "u256_Uint64 (u256_SetBytes (slice (Log.Data ev) 160 192))"
  assume le: "?w \<le> (of_nat (length (Log.Data ev)) :: uint64) - 192"
  have m: "unat ((of_nat (length (Log.Data ev)) :: uint64) - 192) = length (Log.Data ev) - 192"
    using l len by (rule unat_maxExpectedLen)
  have w: "unat ?w \<le> length (Log.Data ev) - 192"
    using le m by (simp add: word_le_nat_alt)
  have "unat (192 :: uint64) + unat ?w < 2 ^ LENGTH(64)"
    using w len by simp
  then have "unat (192 + ?w) = unat (192 :: uint64) + unat ?w"
    by (simp only: unat_add_lem)
  then show "192 \<le> unat (192 + ?w) \<and> unat (192 + ?w) \<le> length (Log.Data ev)"
    using w l by simp
qed

section \<open>The definitions evaluated at concrete inputs\<close>

lemma be_bytes_numeral:
  "be_bytes (numeral k) x = be_bytes (pred_numeral k) (x div 256) @ [of_nat (x mod 256)]"
proof -
  have "be_bytes (Suc (pred_numeral k)) x =
          be_bytes (pred_numeral k) (x div 256) @ [of_nat (x mod 256)]"
    by (rule be_bytes.simps)
  then show ?thesis by (simp only: numeral_eq_Suc)
qed

lemma take_be_bytes: "k \<le> n \<Longrightarrow> take k (be_bytes n x) = be_bytes k (x div 256 ^ (n - k))"
proof (induction n arbitrary: x)
  case 0
  then show ?case by simp
next
  case (Suc n)
  show ?case
  proof (cases "k \<le> n")
    case True
    then show ?thesis
      using Suc.IH[of "x div 256"]
      by (simp add: length_be_bytes Suc_diff_le div_mult2_eq)
  next
    case False
    with Suc.prems have "k = Suc n" by simp
    then show ?thesis using length_be_bytes[of "Suc n" x] by simp
  qed
qed

lemma selector_known: "L1InfoFuncBytes4 keccak_known = [0x8c, 0x89, 0xc3, 0x86]"
proof -
  have "length DepositEventABI \<noteq> length L1InfoFuncSignature"
    by (simp add: L1InfoFuncSignature_def DepositEventABI_def)
  then have "bytes_of L1InfoFuncSignature \<noteq> bytes_of DepositEventABI"
    unfolding bytes_of_def by (metis length_map)
  then have k: "keccak_known (bytes_of L1InfoFuncSignature) =
      0x8c89c38603e022a055929d9c6275ce472a1b0219d2bd01188dee85b8adaee8ae"
    by (simp add: keccak_known_def)
  show ?thesis
    unfolding L1InfoFuncBytes4_def k Hash_Bytes_def slice_def
    by (simp add: take_be_bytes be_bytes_numeral)
qed

lemma block100_Data:
  "L1InfoFuncBytes4 keccak_known @ be_bytes 8 100 @ be_bytes 8 1000 @ be_bytes 32 7 @
     Hash_Bytes 0xAAAAAAAAAAAAAAAAAAAAAAAAAAAAAAAAAAAAAAAAAAAAAAAAAAAAAAAAAAAAAAAA =
   [0x8c, 0x89, 0xc3, 0x86,
    0, 0, 0, 0, 0, 0, 0, 100,
    0, 0, 0, 0, 0, 0, 3, 232,
    0, 0, 0, 0, 0, 0, 0, 0, 0, 0, 0, 0, 0, 0, 0, 0, 0, 0, 0, 0, 0, 0, 0, 0, 0, 0, 0, 0, 0, 0, 0, 7,
    0xAA, 0xAA, 0xAA, 0xAA, 0xAA, 0xAA, 0xAA, 0xAA, 0xAA, 0xAA, 0xAA, 0xAA, 0xAA, 0xAA, 0xAA, 0xAA,
    0xAA, 0xAA, 0xAA, 0xAA, 0xAA, 0xAA, 0xAA, 0xAA, 0xAA, 0xAA, 0xAA, 0xAA, 0xAA, 0xAA, 0xAA, 0xAA]"
  by (simp add: selector_known Hash_Bytes_def be_bytes_numeral)

lemma UnmarshalLogEvent_error_examples:
  "UnmarshalLogEvent keccak_known h t (ev_ok\<lparr>Topics := [0x2222]\<rparr>) = (None, Some ErrTopicCount)"
  "UnmarshalLogEvent keccak_known h t (ev_ok\<lparr>Topics := [7, 0x1111, 0x2222]\<rparr>) =
     (None, Some (ErrSelector 7 0x26137a5e34446f63aa9ea28797a0e70c3987720913879898802dd60b944615ad))"
  "UnmarshalLogEvent keccak_known h t (ev_ok\<lparr>Log.Data := [1, 2, 3]\<rparr>) =
     (None, Some (ErrDataTooSmall 3 [1, 2, 3]))"
  "UnmarshalLogEvent keccak_known h t
     (ev_ok\<lparr>Log.Data := deposit_payload 5 0 (2 ^ 64) 0 160 0 []\<rparr>) =
     (None, Some (ErrBadGas (be_bytes 32 (2 ^ 64))))"
  "UnmarshalLogEvent keccak_known h t
     (ev_ok\<lparr>Log.Data := deposit_payload 5 0 21000 0 160 (2 ^ 64) []\<rparr>) =
     (None, Some (ErrDataTooLarge (2 ^ 64)))"
  "UnmarshalLogEvent keccak_known h t
     (ev_ok\<lparr>Log.Data := deposit_payload 5 0 21000 0 160 4 [1, 2, 3]\<rparr>) =
     (None, Some (ErrDataLenTooLong 4 3))"
  unfolding UnmarshalLogEvent_unfold
  by (simp_all add: ev_ok_def keccak_known_ABI length_deposit_payload slice_deposit_payload
      be_nat_be_bytes)

lemma canonical_selector_known:
  "take 4 (Hash_Bytes (keccak_known (bytes_of canonical_setter_signature))) =
     [0xc0, 0x3b, 0xa4, 0x3e]"
proof -
  have "length canonical_setter_signature \<noteq> length DepositEventABI"
    "length canonical_setter_signature \<noteq> length L1InfoFuncSignature"
    by (simp_all add: canonical_setter_signature_def L1InfoFuncSignature_def DepositEventABI_def)
  then have "bytes_of canonical_setter_signature \<noteq> bytes_of DepositEventABI"
    "bytes_of canonical_setter_signature \<noteq> bytes_of L1InfoFuncSignature"
    unfolding bytes_of_def by (metis length_map)+
  then have k: "keccak_known (bytes_of canonical_setter_signature) =
      0xc03ba43e0a357c601d27396e719273662ac0ffa5440e6b6c70e6a98c9cf673fa"
    by (simp add: keccak_known_def)
  show ?thesis
    unfolding k Hash_Bytes_def
    by (simp add: take_be_bytes be_bytes_numeral)
qed

lemma kept_logs_receipts_none: "kept_logs receipts_none = []"
  by (simp add: kept_logs_def receipts_none_def ReceiptStatusSuccessful_def Address_fixtures)

lemma failed_receipt_example: "DeriveUserDeposits keccak_known h receipts_none = ([], None)"
  by (simp add: DeriveUserDeposits_def receipts_none_def ReceiptStatusSuccessful_def
      Address_fixtures)

lemma encode_loop_all_ok:
  "\<forall>t\<in>set ts. snd (marshal t) = None \<Longrightarrow>
     encode_loop marshal (map Some ts) i acc =
       Returns (Continue (acc @ map (\<lambda>t. fst (marshal t)) ts))"
proof (induction ts arbitrary: i acc)
  case Nil
  show ?case by simp
next
  case (Cons t ts)
  obtain b e where m: "marshal t = (b, e)" by (cases "marshal t") auto
  with Cons.prems have e: "e = None" by simp
  have "\<forall>t\<in>set ts. snd (marshal t) = None" using Cons.prems by simp
  from Cons.IH[OF this, of "i + 1" "acc @ [b]"] show ?case
    using m e by simp
qed

lemma DeriveUserDeposits_no_kept_logs:
  "kept_logs receipts = [] \<Longrightarrow> DeriveUserDeposits keccak h receipts = ([], None)"
  by (simp add: DeriveUserDeposits_char)

lemma DeriveBlockInputs_Some_shape:
  assumes ok: "DeriveBlockInputs keccak deriveSha marshal block receipts = Returns (Some pa, None)"
  shows "\<exists>l1Tx deps. DeriveL1InfoDeposit keccak block = Returns l1Tx \<and>
           DeriveUserDeposits keccak (NumberU64 block) receipts = (map Some deps, None) \<and>
           length deps = length (kept_logs receipts) \<and>
           marshal l1Tx = (Transactions pa ! 0, None) \<and>
           (\<forall>i<length deps. marshal (deps ! i) = (Transactions pa ! (i + 1), None)) \<and>
           length (Transactions pa) = 1 + length deps \<and>
           Transactions pa = fst (marshal l1Tx) # map (\<lambda>d. fst (marshal d)) deps \<and>
           SuggestedFeeRecipient pa = 0 \<and>
           (kept_logs receipts = [] \<longrightarrow> Transactions pa = [fst (marshal l1Tx)])"
proof -
  from ok have c: "CheckReceipts deriveSha block receipts"
    unfolding DeriveBlockInputs_def by (simp split: if_splits)
  from ok c obtain l1Tx where l1: "DeriveL1InfoDeposit keccak block = Returns l1Tx"
    unfolding DeriveBlockInputs_def by (cases "DeriveL1InfoDeposit keccak block") auto
  obtain enc e1 where m1: "marshal l1Tx = (enc, e1)" by (cases "marshal l1Tx") auto
  from ok c l1 m1 have e1: "e1 = None"
    unfolding DeriveBlockInputs_def by (cases e1) auto
  obtain uds e2 where ud: "DeriveUserDeposits keccak (NumberU64 block) receipts = (uds, e2)"
    by (cases "DeriveUserDeposits keccak (NumberU64 block) receipts") auto
  from ok c l1 m1 e1 ud have e2: "e2 = None"
    unfolding DeriveBlockInputs_def by (cases e2) auto
  from ok c l1 m1 e1 ud e2 obtain txs where
    loop: "encode_loop marshal uds 0 [enc] = Returns (Continue txs)" and
    pa: "pa = \<lparr>Timestamp = Time block, Random = MixDigest block, SuggestedFeeRecipient = 0,
               Transactions = txs\<rparr>"
    unfolding DeriveBlockInputs_def
    by (auto split: outcome.splits flow.splits dest: encode_loop_Return)
  from encode_loop_Continue[OF loop] obtain deps where
    deps: "uds = map Some deps" "txs = [enc] @ map (\<lambda>t. fst (marshal t)) deps"
      "\<forall>t\<in>set deps. snd (marshal t) = None" by blast
  have udm: "DeriveUserDeposits keccak (NumberU64 block) receipts = (map Some deps, None)"
    using ud e2 deps(1) by simp
  have n: "length deps = length (kept_logs receipts)"
    using udm unfolding DeriveUserDeposits_ok_iff by simp
  have T: "Transactions pa = fst (marshal l1Tx) # map (\<lambda>d. fst (marshal d)) deps"
    using pa deps(2) m1 by simp
  have each: "\<forall>i<length deps. marshal (deps ! i) = (Transactions pa ! (i + 1), None)"
  proof (intro allI impI)
    fix i assume i: "i < length deps"
    then have "snd (marshal (deps ! i)) = None" using deps(3) by simp
    moreover have "Transactions pa ! (i + 1) = fst (marshal (deps ! i))" using T i by simp
    ultimately show "marshal (deps ! i) = (Transactions pa ! (i + 1), None)"
      by (simp add: prod_eq_iff)
  qed
  show ?thesis
  proof (intro exI[of _ l1Tx] exI[of _ deps] conjI)
    show "DeriveL1InfoDeposit keccak block = Returns l1Tx" by (rule l1)
    show "DeriveUserDeposits keccak (NumberU64 block) receipts = (map Some deps, None)" by (rule udm)
    show "length deps = length (kept_logs receipts)" by (rule n)
    show "marshal l1Tx = (Transactions pa ! 0, None)" using T m1 e1 by simp
    show "\<forall>i<length deps. marshal (deps ! i) = (Transactions pa ! (i + 1), None)" by (rule each)
    show "length (Transactions pa) = 1 + length deps" using T by simp
    show "Transactions pa = fst (marshal l1Tx) # map (\<lambda>d. fst (marshal d)) deps" by (rule T)
    show "SuggestedFeeRecipient pa = 0" using pa by simp
    show "kept_logs receipts = [] \<longrightarrow> Transactions pa = [fst (marshal l1Tx)]" using T n by auto
  qed
qed

lemma DeriveBlockInputs_Some_intro:
  assumes c: "CheckReceipts deriveSha block receipts"
    and l1: "DeriveL1InfoDeposit keccak block = Returns l1Tx"
    and m1: "marshal l1Tx = (enc, None)"
    and ud: "DeriveUserDeposits keccak (NumberU64 block) receipts = (map Some deps, None)"
    and ok: "\<forall>d\<in>set deps. snd (marshal d) = None"
  shows "DeriveBlockInputs keccak deriveSha marshal block receipts =
           Returns (Some \<lparr>Timestamp = Time block, Random = MixDigest block,
             SuggestedFeeRecipient = 0,
             Transactions = enc # map (\<lambda>d. fst (marshal d)) deps\<rparr>, None)"
proof -
  have "encode_loop marshal (map Some deps) 0 ([] @ [enc]) =
          Returns (Continue (([] @ [enc]) @ map (\<lambda>d. fst (marshal d)) deps))"
    using ok by (rule encode_loop_all_ok)
  then show ?thesis
    unfolding DeriveBlockInputs_def using c l1 m1 ud by simp
qed

section \<open>The claims about UnmarshalLogEvent\<close>

text \<open>
  Claim C1. For a log whose payload has a length Go can represent (below \<open>2 ^ 63\<close>),
  \<open>UnmarshalLogEvent\<close> returns a nil result with a \<open>MalformedEvent\<close> error exactly when the log
  does not have exactly 3 topics, or topic 0 differs from the hash of the deposit-event
  signature, or the payload is shorter than 192 bytes, or the gas field (bytes 64..96) does
  not fit in 64 bits, or the data-offset field (bytes 128..160) equals 128, or the
  data-length field (bytes 160..192) does not fit in 64 bits or exceeds the bytes that
  remain after the six fixed fields; in every other case it returns a deposit and no error.
\<close>


theorem UnmarshalLogEvent_fails_iff:
  assumes len: "length (Log.Data ev) < 2 ^ 63"
  shows "((\<exists>e. UnmarshalLogEvent keccak blockNum txIndex ev = (None, Some e) \<and> MalformedEvent e) \<longleftrightarrow>
           (length (Topics ev) \<noteq> 3 \<or>
            Topics ev ! 0 \<noteq> DepositEventABIHash keccak \<or>
            length (Log.Data ev) < 192 \<or>
            2 ^ 64 \<le> be_nat (slice (Log.Data ev) 64 96) \<or>
            be_nat (slice (Log.Data ev) 128 160) = 128 \<or>
            2 ^ 64 \<le> be_nat (slice (Log.Data ev) 160 192) \<or>
            length (Log.Data ev) - 192 < be_nat (slice (Log.Data ev) 160 192))) \<and>
         ((\<exists>dep. UnmarshalLogEvent keccak blockNum txIndex ev = (Some dep, None)) \<longleftrightarrow>
           \<not> (length (Topics ev) \<noteq> 3 \<or>
            Topics ev ! 0 \<noteq> DepositEventABIHash keccak \<or>
            length (Log.Data ev) < 192 \<or>
            2 ^ 64 \<le> be_nat (slice (Log.Data ev) 64 96) \<or>
            be_nat (slice (Log.Data ev) 128 160) = 128 \<or>
            2 ^ 64 \<le> be_nat (slice (Log.Data ev) 160 192) \<or>
            length (Log.Data ev) - 192 < be_nat (slice (Log.Data ev) 160 192)))"
proof (cases "192 \<le> length (Log.Data ev) \<and> be_nat (slice (Log.Data ev) 160 192) < 2 ^ 64")
  case True
  then have cmp: "(word_of_nat (length (Log.Data ev)) - 192
                    < (word_of_nat (be_nat (slice (Log.Data ev) 160 192)) :: uint64)) \<longleftrightarrow>
                  length (Log.Data ev) - 192 < be_nat (slice (Log.Data ev) 160 192)"
    using len by (simp add: dataLen_gt_iff)
  show ?thesis
    unfolding UnmarshalLogEvent_unfold using True
    by (simp add: cmp not_le not_less)
next
  case False
  then show ?thesis
    unfolding UnmarshalLogEvent_unfold
    by (auto simp: not_le not_less)
qed

theorem UnmarshalLogEvent_fails_iff_witness:
  "length (Log.Data ev_ok) < 2 ^ 63 \<and>
   (\<exists>dep. UnmarshalLogEvent keccak_known 100 1 ev_ok = (Some dep, None)) \<and>
   length (Log.Data ev_offset128) < 2 ^ 63 \<and>
   (\<exists>e. UnmarshalLogEvent keccak_known 100 1
           ev_offset128 = (None, Some e) \<and>
        MalformedEvent e)"
proof -
  have l1: "length (Log.Data ev_ok) < 2 ^ 63"
    by (simp add: ev_ok_def length_deposit_payload)
  have l2: "length (Log.Data ev_offset128) < 2 ^ 63"
    by (simp add: ev_offset128_def length_deposit_payload)
  have a: "\<exists>dep. UnmarshalLogEvent keccak_known 100 1 ev_ok = (Some dep, None)"
    using UnmarshalLogEvent_fails_iff[OF l1, of keccak_known 100 1]
    by (simp add: ev_ok_def length_deposit_payload slice_deposit_payload be_nat_be_bytes keccak_known_ABI)
  have b: "\<exists>e. UnmarshalLogEvent keccak_known 100 1
           ev_offset128 = (None, Some e) \<and>
        MalformedEvent e"
    using UnmarshalLogEvent_fails_iff[OF l2, of keccak_known 100 1]
    by (simp add: ev_offset128_def length_deposit_payload slice_deposit_payload be_nat_be_bytes)
  show ?thesis using l1 l2 a b by blast
qed

text \<open>
  Claim C6. For every log that decodes, \<open>Mint\<close> is absent iff the second 32-byte field of the
  payload (bytes 32..64) is zero, and otherwise holds that number; \<open>To\<close> is absent iff the
  last byte of the creation-flag slot (bytes 96..128) is nonzero, and when that byte is zero
  \<open>To\<close> is the address decoded from topic 2 (its last 20 bytes).
\<close>


theorem UnmarshalLogEvent_Mint_To:
  assumes ok: "UnmarshalLogEvent keccak blockNum txIndex ev = (Some dep, None)"
  shows "(Mint dep = None \<longleftrightarrow> be_nat (slice (Log.Data ev) 32 64) = 0) \<and>
         (be_nat (slice (Log.Data ev) 32 64) \<noteq> 0 \<longrightarrow>
            Mint dep = Some (int (be_nat (slice (Log.Data ev) 32 64)))) \<and>
         (To dep = None \<longleftrightarrow> last (slice (Log.Data ev) 96 128) \<noteq> 0) \<and>
         (last (slice (Log.Data ev) 96 128) = 0 \<longrightarrow>
            To dep = Some (BytesToAddress (drop 12 (Hash_Bytes (Topics ev ! 2)))) \<and>
            To dep = Some (ucast (Topics ev ! 2)))"
proof -
  have l: "192 \<le> length (Log.Data ev)"
    using ok unfolding UnmarshalLogEvent_unfold by (simp split: if_splits)
  then have f: "last (slice (Log.Data ev) 96 128) = Log.Data ev ! 127"
    by (simp add: last_slice_flag)
  show ?thesis
    using ok unfolding UnmarshalLogEvent_unfold f
    by (auto simp: address_of_topic split: if_splits)
qed

theorem UnmarshalLogEvent_Mint_To_witness:
  "(\<exists>dep. UnmarshalLogEvent keccak_known 100 1 ev_mint_create = (Some dep, None) \<and>
      (Mint dep = None \<longleftrightarrow> be_nat (slice (Log.Data ev_mint_create) 32 64) = 0) \<and>
      (To dep = None \<longleftrightarrow> last (slice (Log.Data ev_mint_create) 96 128) \<noteq> 0) \<and>
      Mint dep = Some 9 \<and> To dep = None) \<and>
   (\<exists>dep. UnmarshalLogEvent keccak_known 100 1 ev_ok = (Some dep, None) \<and>
      (Mint dep = None \<longleftrightarrow> be_nat (slice (Log.Data ev_ok) 32 64) = 0) \<and>
      (To dep = None \<longleftrightarrow> last (slice (Log.Data ev_ok) 96 128) \<noteq> 0) \<and>
      Mint dep = None \<and> To dep = Some 0x2222)"
  using UnmarshalLogEvent_Mint_To[OF ev_mint_create_decodes[of 100 1]]
    UnmarshalLogEvent_Mint_To[OF ev_ok_decodes[of 100 1]]
  by (simp add: ev_mint_create_decodes ev_ok_decodes)

text \<open>
  Claim C7. For every log that decodes (payload length below \<open>2 ^ 63\<close>), \<open>Data\<close> is exactly
  the declared number of bytes (the data-length field, bytes 160..192) of the payload from
  byte 192 on; the payload is the 192 fixed bytes, then \<open>Data\<close>, then the padding, which is
  not part of \<open>Data\<close>.
\<close>

theorem UnmarshalLogEvent_Data:
  assumes len: "length (Log.Data ev) < 2 ^ 63"
    and ok: "UnmarshalLogEvent keccak blockNum txIndex ev = (Some dep, None)"
  shows "DepositTx.Data dep =
           take (be_nat (slice (Log.Data ev) 160 192)) (drop 192 (Log.Data ev)) \<and>
         length (DepositTx.Data dep) = be_nat (slice (Log.Data ev) 160 192) \<and>
         Log.Data ev = take 192 (Log.Data ev) @ DepositTx.Data dep @
           drop (192 + be_nat (slice (Log.Data ev) 160 192)) (Log.Data ev)"
proof -
  let ?d = "Log.Data ev" and ?n = "be_nat (slice (Log.Data ev) 160 192)"
  have 1: "DepositTx.Data dep = take ?n (drop 192 ?d)"
    and le: "?n \<le> length ?d - 192"
    using UnmarshalLogEvent_Data_at_192[OF len ok] by blast+
  have 2: "length (DepositTx.Data dep) = ?n" using 1 le by simp
  have "take 192 ?d @ take ?n (drop 192 ?d) @ drop (192 + ?n) ?d =
          take 192 ?d @ (take ?n (drop 192 ?d) @ drop ?n (drop 192 ?d))"
    by (simp add: add.commute)
  also have "\<dots> = ?d" by (simp only: append_take_drop_id)
  finally have 3: "?d = take 192 ?d @ DepositTx.Data dep @ drop (192 + ?n) ?d"
    using 1 by simp
  show ?thesis using 1 2 3 by blast
qed

theorem UnmarshalLogEvent_Data_witness:
  "length (Log.Data ev_ok) = 224 \<and>
   (\<exists>dep. UnmarshalLogEvent keccak_known 100 1 ev_ok = (Some dep, None) \<and>
      DepositTx.Data dep = take (be_nat (slice (Log.Data ev_ok) 160 192)) (drop 192 (Log.Data ev_ok)) \<and>
      length (DepositTx.Data dep) = be_nat (slice (Log.Data ev_ok) 160 192) \<and>
      DepositTx.Data dep = [1, 2, 3])"
proof -
  have l: "length (Log.Data ev_ok) = 224"
    by (simp add: ev_ok_def length_deposit_payload)
  then have l63: "length (Log.Data ev_ok) < 2 ^ 63" by simp
  show ?thesis
    using l UnmarshalLogEvent_Data[OF l63 ev_ok_decodes[of 100 1]]
    by (simp add: ev_ok_decodes)
qed

text \<open>
  Claim C10. \<open>UnmarshalLogEvent\<close> never uses the data-offset field to locate the data: if a
  log decodes (payload length below \<open>2 ^ 63\<close>), then the log with the field (bytes 128..160)
  replaced by any 32 bytes whose value is not 128 decodes to the same deposit, and \<open>Data\<close>
  is the declared number of bytes read from byte 192.
\<close>

theorem UnmarshalLogEvent_ignores_dataOffset:
  assumes ok: "UnmarshalLogEvent keccak blockNum txIndex ev = (Some dep, None)"
    and off: "length off = 32" "be_nat off \<noteq> 128"
    and len: "length (Log.Data ev) < 2 ^ 63"
  shows "UnmarshalLogEvent keccak blockNum txIndex
           (ev\<lparr>Log.Data := take 128 (Log.Data ev) @ off @ drop 160 (Log.Data ev)\<rparr>) =
           (Some dep, None) \<and>
         DepositTx.Data dep =
           take (be_nat (slice (Log.Data ev) 160 192)) (drop 192 (Log.Data ev))"
proof -
  have l: "192 \<le> length (Log.Data ev)" and orig: "be_nat (slice (Log.Data ev) 128 160) \<noteq> 128"
    using decoded_not_128[OF ok] by blast+
  have "UnmarshalLogEvent keccak blockNum txIndex
           (ev\<lparr>Log.Data := take 128 (Log.Data ev) @ off @ drop 160 (Log.Data ev)\<rparr>) =
         UnmarshalLogEvent keccak blockNum txIndex ev"
    using off l orig by (rule UnmarshalLogEvent_dataOffset_indep)
  then show ?thesis
    using ok UnmarshalLogEvent_Data_at_192(1)[OF len ok] by simp
qed

theorem UnmarshalLogEvent_ignores_dataOffset_witness:
  "be_nat (slice (Log.Data ev_ok) 128 160) = 160 \<and>
   be_nat (be_bytes 32 7) = 7 \<and>
   (\<exists>dep. UnmarshalLogEvent keccak_known 100 1 ev_ok = (Some dep, None) \<and>
      UnmarshalLogEvent keccak_known 100 1
        (ev_ok\<lparr>Log.Data := take 128 (Log.Data ev_ok) @ be_bytes 32 7 @ drop 160 (Log.Data ev_ok)\<rparr>) =
        (Some dep, None) \<and>
      DepositTx.Data dep = [1, 2, 3])"
proof -
  have l63: "length (Log.Data ev_ok) < 2 ^ 63"
    by (simp add: ev_ok_def length_deposit_payload)
  have o: "length (be_bytes 32 7) = 32" "be_nat (be_bytes 32 7) \<noteq> 128"
    by (simp_all add: length_be_bytes be_nat_be_bytes)
  have s: "be_nat (slice (Log.Data ev_ok) 128 160) = 160" "be_nat (be_bytes 32 7) = 7"
    by (simp_all add: ev_ok_def slice_deposit_payload be_nat_be_bytes)
  show ?thesis
    using s UnmarshalLogEvent_ignores_dataOffset[OF ev_ok_decodes[of 100 1] o l63]
    by (simp add: ev_ok_decodes)
qed

section \<open>The claims about DeriveUserDeposits\<close>

text \<open>
  Claim C2. For every block height and receipt list, \<open>DeriveUserDeposits\<close> succeeds with the
  list \<open>out\<close> exactly when \<open>out\<close> holds, entry by entry, the decoded deposits of the kept logs
  (the logs of successful receipts that the deposit contract emitted, in encounter order),
  the \<open>i\<close>-th of them (counting from 0) decoded at this height with \<open>TransactionIndex\<close>
  \<open>i + 1\<close>. Receipts that are not successful contribute nothing, whatever their logs hold,
  and the positions \<open>TxIndex\<close> and \<open>Index\<close> the logs had in the block have no influence.
\<close>

theorem DeriveUserDeposits_success:
  "(DeriveUserDeposits keccak height receipts = (out, None) \<longleftrightarrow>
      length out = length (kept_logs receipts) \<and>
      (\<forall>i<length (kept_logs receipts). \<exists>dep. out ! i = Some dep \<and>
         UnmarshalLogEvent keccak height (of_nat i + 1) (kept_logs receipts ! i) = (Some dep, None) \<and>
         BlockHeight dep = height \<and> TransactionIndex dep = of_nat i + 1)) \<and>
   (DeriveUserDeposits keccak height receipts = (out, None) \<and> length out < 2 ^ 64 \<longrightarrow>
      (\<forall>i<length out. \<exists>dep. out ! i = Some dep \<and> unat (TransactionIndex dep) = i + 1)) \<and>
   DeriveUserDeposits keccak height
     (filter (\<lambda>rc. Status rc = ReceiptStatusSuccessful) receipts) =
     DeriveUserDeposits keccak height receipts \<and>
   DeriveUserDeposits keccak height
     (map (\<lambda>rc. rc\<lparr>Logs := map (\<lambda>lg. lg\<lparr>TxIndex := f lg, Index := g lg\<rparr>) (Logs rc)\<rparr>) receipts) =
     DeriveUserDeposits keccak height receipts"
proof -
  let ?kept = "kept_logs receipts"
  let ?R = "length out = length ?kept \<and>
      (\<forall>i<length ?kept. \<exists>dep. out ! i = Some dep \<and>
         UnmarshalLogEvent keccak height (of_nat i + 1) (?kept ! i) = (Some dep, None))"
  let ?R' = "length out = length ?kept \<and>
      (\<forall>i<length ?kept. \<exists>dep. out ! i = Some dep \<and>
         UnmarshalLogEvent keccak height (of_nat i + 1) (?kept ! i) = (Some dep, None) \<and>
         BlockHeight dep = height \<and> TransactionIndex dep = of_nat i + 1)"
  have "?R \<Longrightarrow> ?R'"
    using UnmarshalLogEvent_index[of keccak height] by blast
  moreover have "?R' \<Longrightarrow> ?R" by blast
  ultimately have 1: "DeriveUserDeposits keccak height receipts = (out, None) \<longleftrightarrow> ?R'"
    unfolding DeriveUserDeposits_ok_iff by blast
  have 2: "\<forall>i<length out. \<exists>dep. out ! i = Some dep \<and> unat (TransactionIndex dep) = i + 1"
    if ok: "DeriveUserDeposits keccak height receipts = (out, None)" and n: "length out < 2 ^ 64"
  proof (intro allI impI)
    fix i assume i: "i < length out"
    from ok 1 have r: ?R' by blast
    then have "i < length ?kept" using i by simp
    with r obtain dep where d: "out ! i = Some dep" "TransactionIndex dep = of_nat i + 1"
      by blast
    have "unat (of_nat i + 1 :: uint64) = i + 1" using i n by (rule unat_index)
    then show "\<exists>dep. out ! i = Some dep \<and> unat (TransactionIndex dep) = i + 1"
      using d by simp
  qed
  have 3: "DeriveUserDeposits keccak height
     (filter (\<lambda>rc. Status rc = ReceiptStatusSuccessful) receipts) =
     DeriveUserDeposits keccak height receipts"
    by (simp only: DeriveUserDeposits_char kept_logs_successful)
  have 4: "DeriveUserDeposits keccak height
     (map (\<lambda>rc. rc\<lparr>Logs := map (\<lambda>lg. lg\<lparr>TxIndex := f lg, Index := g lg\<rparr>) (Logs rc)\<rparr>) receipts) =
     DeriveUserDeposits keccak height receipts"
    by (simp only: DeriveUserDeposits_char kept_logs_positions decode_from_positions)
  show ?thesis using 1 2 3 4 by blast
qed

theorem DeriveUserDeposits_success_witness:
  "kept_logs receipts_ok = [ev_ok, ev_mint_create] \<and>
   (\<exists>d1 d2. DeriveUserDeposits keccak_known 100 receipts_ok = ([Some d1, Some d2], None) \<and>
      UnmarshalLogEvent keccak_known 100 1 ev_ok = (Some d1, None) \<and>
      UnmarshalLogEvent keccak_known 100 2 ev_mint_create = (Some d2, None) \<and>
      unat (TransactionIndex d1) = 1 \<and> unat (TransactionIndex d2) = 2) \<and>
   DeriveUserDeposits keccak_known 100 (filter (\<lambda>rc. Status rc = ReceiptStatusSuccessful) receipts_ok) =
     DeriveUserDeposits keccak_known 100 receipts_ok"
proof -
  let ?d1 = "\<lparr>BlockHeight = 100, TransactionIndex = 1, From = 0x1111, To = Some 0x2222, Mint = None,
          Value = Some 5, Gas = 21000, Data = [1, 2, 3]\<rparr>"
  let ?d2 = "\<lparr>BlockHeight = 100, TransactionIndex = 2, From = 0x1111, To = None, Mint = Some 9,
          Value = Some 0, Gas = 21000, Data = []\<rparr>"
  have h: "DeriveUserDeposits keccak_known 100 receipts_ok = ([Some ?d1, Some ?d2], None)"
    by (rule receipts_ok_derives)
  have t: "DeriveUserDeposits keccak_known 100 receipts_ok = ([Some ?d1, Some ?d2], None) \<and>
      length [Some ?d1, Some ?d2] < 2 ^ 64 \<longrightarrow>
      (\<forall>i<length [Some ?d1, Some ?d2]. \<exists>dep. [Some ?d1, Some ?d2] ! i = Some dep \<and>
         unat (TransactionIndex dep) = i + 1)"
    and e: "DeriveUserDeposits keccak_known 100
        (filter (\<lambda>rc. Status rc = ReceiptStatusSuccessful) receipts_ok) =
      DeriveUserDeposits keccak_known 100 receipts_ok"
    using DeriveUserDeposits_success[of keccak_known 100 receipts_ok "[Some ?d1, Some ?d2]"]
    by blast+
  have i1: "unat (TransactionIndex ?d1) = 1" using t h by (auto dest: spec[of _ 0])
  have i2: "unat (TransactionIndex ?d2) = 2" using t h by (auto dest: spec[of _ 1])
  show ?thesis
    using h e i1 i2 kept_logs_receipts_ok ev_ok_decodes[of 100 1] ev_mint_create_decodes[of 100 2]
    by (intro conjI exI[of _ ?d1] exI[of _ ?d2]) simp_all
qed

text \<open>
  Claim C8. If any kept log fails to decode, \<open>DeriveUserDeposits\<close> returns the nil list
  together with an error that wraps the \<open>MalformedEvent\<close> failure of the first kept log that
  fails; no deposit decoded before it is returned.
\<close>

theorem DeriveUserDeposits_failure:
  assumes "lg \<in> set (kept_logs receipts)"
    and "snd (UnmarshalLogEvent keccak height txIndex lg) \<noteq> None"
  shows "\<exists>i e. i < length (kept_logs receipts) \<and>
          UnmarshalLogEvent keccak height (of_nat i + 1) (kept_logs receipts ! i) = (None, Some e) \<and>
          MalformedEvent e \<and>
          (\<forall>j<i. snd (UnmarshalLogEvent keccak height (of_nat j + 1) (kept_logs receipts ! j)) = None) \<and>
          DeriveUserDeposits keccak height receipts = ([], Some (ErrMalformattedLog e))"
proof -
  let ?kept = "kept_logs receipts"
  let ?rs = "decode_from keccak height 0 ?kept"
  have nth: "\<And>i. i < length ?kept \<Longrightarrow>
      ?rs ! i = UnmarshalLogEvent keccak height (of_nat i + 1) (?kept ! i)"
    by (simp add: decode_from_nth)
  obtain k where k: "k < length ?kept" "?kept ! k = lg"
    using assms(1) by (auto simp: in_set_conv_nth)
  have "snd (?rs ! k) \<noteq> None"
    using k assms(2) nth[of k]
      UnmarshalLogEvent_error_indep[of keccak height "of_nat k + 1" lg height txIndex]
    by simp
  moreover have "?rs ! k \<in> set ?rs" using k by (simp add: length_decode_from)
  ultimately have "\<exists>r. r \<in> set ?rs \<and> snd r \<noteq> None" by blast
  then obtain r where f: "find (\<lambda>r. snd r \<noteq> None) ?rs = Some r"
    by (cases "find (\<lambda>r. snd r \<noteq> None) ?rs") (auto simp: find_None_iff)
  then obtain i where i: "i < length ?rs" "snd (?rs ! i) \<noteq> None" "r = ?rs ! i"
      "\<forall>j<i. \<not> snd (?rs ! j) \<noteq> None"
    by (auto simp: find_Some_iff)
  have il: "i < length ?kept" using i(1) by (simp add: length_decode_from)
  obtain e where e: "?rs ! i = (None, Some e)" "MalformedEvent e"
    using UnmarshalLogEvent_cases[of keccak height "of_nat i + 1" "?kept ! i"] i(2) nth[OF il]
    by auto
  have before: "\<forall>j<i. snd (UnmarshalLogEvent keccak height (of_nat j + 1) (?kept ! j)) = None"
  proof (intro allI impI)
    fix j assume j: "j < i"
    then have jl: "j < length ?kept" using il by simp
    have "snd (?rs ! j) = None" using i(4) j by simp
    then show "snd (UnmarshalLogEvent keccak height (of_nat j + 1) (?kept ! j)) = None"
      using nth[OF jl] by simp
  qed
  have res: "DeriveUserDeposits keccak height receipts = ([], Some (ErrMalformattedLog e))"
    using f i(3) e(1) by (simp add: DeriveUserDeposits_char)
  show ?thesis
    using il e nth[OF il] before res by auto
qed

theorem DeriveUserDeposits_failure_witness:
  "ev_offset128 \<in> set (kept_logs receipts_bad) \<and>
   snd (UnmarshalLogEvent keccak_known 100 0 ev_offset128) \<noteq> None \<and>
   (\<exists>e. DeriveUserDeposits keccak_known 100 receipts_bad = ([], Some (ErrMalformattedLog e)) \<and>
        MalformedEvent e)"
proof -
  have a: "ev_offset128 \<in> set (kept_logs receipts_bad)"
    by (simp add: kept_logs_receipts_bad)
  have b: "snd (UnmarshalLogEvent keccak_known 100 0 ev_offset128) \<noteq> None"
    by (simp add: ev_offset128_fails)
  show ?thesis
    using a b DeriveUserDeposits_failure[OF a b] by blast
qed

text \<open>
  Claim C9 as stated does not hold: the error of a failed decoding is the same value at
  every block height and transaction index, here \<open>ErrDataOffset 128\<close> at heights 100 and 200
  and indices 1 and 2, and \<open>DeriveUserDeposits\<close> wraps it without adding either, although
  the failing log is the second kept log of the block.
\<close>

theorem error_context_counterexample:
  "snd (UnmarshalLogEvent keccak_known 100 1 ev_offset128) = Some (ErrDataOffset 128) \<and>
   snd (UnmarshalLogEvent keccak_known 200 2 ev_offset128) = Some (ErrDataOffset 128) \<and>
   snd (DeriveUserDeposits keccak_known 100 receipts_bad) =
     Some (ErrMalformattedLog (ErrDataOffset 128)) \<and>
   snd (DeriveUserDeposits keccak_known 200 receipts_bad) =
     Some (ErrMalformattedLog (ErrDataOffset 128))"
  by (simp add: ev_offset128_fails receipts_bad_derives)

text \<open>
  Claim C9, amended. Every failure of the log decoder and of the user-deposit derivation is
  returned to the caller as an error with a nil result: the decoder's error is a
  \<open>MalformedEvent\<close> failure, \<open>DeriveUserDeposits\<close> wraps it as a malformatted deposit log, and
  \<open>DeriveBlockInputs\<close> wraps that again. The error carries no block height and no log or
  transaction index: it is the same for every height and every index.
\<close>

theorem derivation_errors_without_position:
  "snd (UnmarshalLogEvent keccak blockNum txIndex ev) =
     snd (UnmarshalLogEvent keccak blockNum' txIndex' ev) \<and>
   snd (DeriveUserDeposits keccak height receipts) =
     snd (DeriveUserDeposits keccak height' receipts) \<and>
   (\<forall>e. snd (UnmarshalLogEvent keccak blockNum txIndex ev) = Some e \<longrightarrow>
      MalformedEvent e \<and> fst (UnmarshalLogEvent keccak blockNum txIndex ev) = None) \<and>
   (\<forall>e. snd (DeriveUserDeposits keccak height receipts) = Some e \<longrightarrow>
      (\<exists>e'. e = ErrMalformattedLog e' \<and> MalformedEvent e') \<and>
      fst (DeriveUserDeposits keccak height receipts) = []) \<and>
   (\<forall>l1Tx enc ds e. CheckReceipts deriveSha block receipts \<and>
      DeriveL1InfoDeposit keccak block = Returns l1Tx \<and> marshal l1Tx = (enc, None) \<and>
      DeriveUserDeposits keccak (NumberU64 block) receipts = (ds, Some e) \<longrightarrow>
      DeriveBlockInputs keccak deriveSha marshal block receipts =
        Returns (None, Some (ErrDeriveUserDeposits e)))"
proof -
  have 1: "snd (UnmarshalLogEvent keccak blockNum txIndex ev) =
     snd (UnmarshalLogEvent keccak blockNum' txIndex' ev)"
    by (rule UnmarshalLogEvent_error_indep)
  have 2: "snd (DeriveUserDeposits keccak height receipts) =
     snd (DeriveUserDeposits keccak height' receipts)"
    by (rule DeriveUserDeposits_error_indep)
  have 3: "\<forall>e. snd (UnmarshalLogEvent keccak blockNum txIndex ev) = Some e \<longrightarrow>
      MalformedEvent e \<and> fst (UnmarshalLogEvent keccak blockNum txIndex ev) = None"
    using UnmarshalLogEvent_cases[of keccak blockNum txIndex ev] by auto
  have 4: "\<forall>e. snd (DeriveUserDeposits keccak height receipts) = Some e \<longrightarrow>
      (\<exists>e'. e = ErrMalformattedLog e' \<and> MalformedEvent e') \<and>
      fst (DeriveUserDeposits keccak height receipts) = []"
    using DeriveUserDeposits_error_shape by blast
  have 5: "\<forall>l1Tx enc ds e. CheckReceipts deriveSha block receipts \<and>
      DeriveL1InfoDeposit keccak block = Returns l1Tx \<and> marshal l1Tx = (enc, None) \<and>
      DeriveUserDeposits keccak (NumberU64 block) receipts = (ds, Some e) \<longrightarrow>
      DeriveBlockInputs keccak deriveSha marshal block receipts =
        Returns (None, Some (ErrDeriveUserDeposits e))"
    by (simp add: DeriveBlockInputs_def)
  show ?thesis using 1 2 3 4 5 by blast
qed

theorem derivation_errors_without_position_witness:
  "snd (UnmarshalLogEvent keccak_known 100 1 ev_offset128) = Some (ErrDataOffset 128) \<and>
   MalformedEvent (ErrDataOffset 128) \<and>
   fst (UnmarshalLogEvent keccak_known 100 1 ev_offset128) = None \<and>
   snd (DeriveUserDeposits keccak_known 100 receipts_bad) =
     Some (ErrMalformattedLog (ErrDataOffset 128)) \<and>
   fst (DeriveUserDeposits keccak_known 100 receipts_bad) = [] \<and>
   snd (DeriveUserDeposits keccak_known 100 receipts_bad) =
     snd (DeriveUserDeposits keccak_known 977 receipts_bad)"
proof -
  have a: "snd (UnmarshalLogEvent keccak_known 100 1 ev_offset128) = Some (ErrDataOffset 128)"
    by (simp add: ev_offset128_fails)
  have b: "snd (DeriveUserDeposits keccak_known 100 receipts_bad) =
     Some (ErrMalformattedLog (ErrDataOffset 128))"
    by (simp add: receipts_bad_derives)
  show ?thesis
    using a b derivation_errors_without_position[of keccak_known 100 1 ev_offset128 100 1 100
        receipts_bad 977 deriveSha_count block100 marshal_plain]
    by blast
qed

section \<open>The claim about DeriveL1InfoDeposit\<close>

text \<open>
  Claim C3 as stated does not hold. First, not every block view yields a transaction:
  \<open>FillBytes\<close> panics when the base fee is nil (a block from before the base fee existed)
  and when it does not fit in 32 bytes. Second, the first four bytes of the payload are not
  the selector of the canonical setter signature: the source hashes its string
  \<open>L1InfoFuncSignature\<close>, which carries parameter names and spaces, and for the block with
  number 100, timestamp 1000, base fee 7 and hash \<open>0xAA...\<close> the payload starts with
  \<open>8c 89 c3 86\<close>, while the selector of \<open>setL1BlockValues(uint256,uint256,uint256,bytes32)\<close>
  is \<open>c0 3b a4 3e\<close>.
\<close>

theorem DeriveL1InfoDeposit_counterexample:
  "DeriveL1InfoDeposit keccak_known (block100\<lparr>BaseFee := None\<rparr>) = Panics \<and>
   DeriveL1InfoDeposit keccak_known (block100\<lparr>BaseFee := Some (2 ^ 256)\<rparr>) = Panics \<and>
   DeriveL1InfoDeposit keccak_known block100 =
     Returns \<lparr>BlockHeight = 100, TransactionIndex = 0,
       From = DepositContractAddr, To = Some L1InfoPredeployAddr, Mint = None,
       Value = Some 0, Gas = 99999999,
       Data =
        [0x8c, 0x89, 0xc3, 0x86,
         0, 0, 0, 0, 0, 0, 0, 100,
         0, 0, 0, 0, 0, 0, 3, 232,
         0, 0, 0, 0, 0, 0, 0, 0, 0, 0, 0, 0, 0, 0, 0, 0,
         0, 0, 0, 0, 0, 0, 0, 0, 0, 0, 0, 0, 0, 0, 0, 7,
         0xAA, 0xAA, 0xAA, 0xAA, 0xAA, 0xAA, 0xAA, 0xAA, 0xAA, 0xAA, 0xAA, 0xAA, 0xAA, 0xAA, 0xAA, 0xAA,
         0xAA, 0xAA, 0xAA, 0xAA, 0xAA, 0xAA, 0xAA, 0xAA, 0xAA, 0xAA, 0xAA, 0xAA, 0xAA, 0xAA, 0xAA, 0xAA]\<rparr> \<and>
   take 4 (Hash_Bytes (keccak_known (bytes_of canonical_setter_signature))) =
     [0xc0, 0x3b, 0xa4, 0x3e] \<and>
   L1InfoFuncBytes4 keccak_known \<noteq>
     take 4 (Hash_Bytes (keccak_known (bytes_of canonical_setter_signature)))"
proof -
  have 1: "DeriveL1InfoDeposit keccak_known (block100\<lparr>BaseFee := None\<rparr>) = Panics"
    by (rule DeriveL1InfoDeposit_Panics) simp
  have 2: "DeriveL1InfoDeposit keccak_known (block100\<lparr>BaseFee := Some (2 ^ 256)\<rparr>) = Panics"
    by (rule DeriveL1InfoDeposit_Panics) simp
  have 3: "DeriveL1InfoDeposit keccak_known block100 =
     Returns \<lparr>BlockHeight = 100, TransactionIndex = 0,
       From = DepositContractAddr, To = Some L1InfoPredeployAddr, Mint = None,
       Value = Some 0, Gas = 99999999,
       Data =
        [0x8c, 0x89, 0xc3, 0x86,
         0, 0, 0, 0, 0, 0, 0, 100,
         0, 0, 0, 0, 0, 0, 3, 232,
         0, 0, 0, 0, 0, 0, 0, 0, 0, 0, 0, 0, 0, 0, 0, 0,
         0, 0, 0, 0, 0, 0, 0, 0, 0, 0, 0, 0, 0, 0, 0, 7,
         0xAA, 0xAA, 0xAA, 0xAA, 0xAA, 0xAA, 0xAA, 0xAA, 0xAA, 0xAA, 0xAA, 0xAA, 0xAA, 0xAA, 0xAA, 0xAA,
         0xAA, 0xAA, 0xAA, 0xAA, 0xAA, 0xAA, 0xAA, 0xAA, 0xAA, 0xAA, 0xAA, 0xAA, 0xAA, 0xAA, 0xAA, 0xAA]\<rparr>"
    by (simp only: block100_L1Info block100_Data)
  have 4: "take 4 (Hash_Bytes (keccak_known (bytes_of canonical_setter_signature))) =
     [0xc0, 0x3b, 0xa4, 0x3e]"
    by (rule canonical_selector_known)
  have 5: "L1InfoFuncBytes4 keccak_known \<noteq>
     take 4 (Hash_Bytes (keccak_known (bytes_of canonical_setter_signature)))"
    by (simp add: selector_known canonical_selector_known)
  show ?thesis using 1 2 3 4 5 by blast
qed

text \<open>
  Claim C3, amended. For every L1 block view whose base fee is present and has an absolute
  value below \<open>2 ^ 256\<close>, \<open>DeriveL1InfoDeposit\<close> returns a deposit transaction from the
  deposit-contract address to the L1-info predeploy address with value zero, no mint, gas
  99,999,999 and transaction index 0, whose data is exactly 84 bytes: four bytes, then the
  block number and the timestamp as 8 big-endian bytes each, the absolute value of the base
  fee as 32 big-endian bytes, and the 32 bytes of the block hash. The result depends on the
  block view through these four accessors only, so not on anything about its receipts.
  Nothing is said about the value of the first four bytes.
\<close>

theorem DeriveL1InfoDeposit_layout:
  assumes fee: "BaseFee block = Some fee" "\<bar>fee\<bar> < 2 ^ 256"
  shows "\<exists>tx. DeriveL1InfoDeposit keccak block = Returns tx \<and>
           From tx = DepositContractAddr \<and> To tx = Some L1InfoPredeployAddr \<and>
           Value tx = Some 0 \<and> Mint tx = None \<and> Gas tx = 99999999 \<and>
           TransactionIndex tx = 0 \<and>
           length (DepositTx.Data tx) = 84 \<and>
           drop 4 (DepositTx.Data tx) =
             be_bytes 8 (unat (NumberU64 block)) @ be_bytes 8 (unat (Time block)) @
             be_bytes 32 (nat \<bar>fee\<bar>) @ Hash_Bytes (Hash block) \<and>
           be_nat (be_bytes 8 (unat (NumberU64 block))) = unat (NumberU64 block) \<and>
           be_nat (be_bytes 8 (unat (Time block))) = unat (Time block) \<and>
           be_nat (be_bytes 32 (nat \<bar>fee\<bar>)) = nat \<bar>fee\<bar> \<and>
           be_nat (Hash_Bytes (Hash block)) = unat (Hash block) \<and>
           (\<forall>other :: 'b L1Info_scheme.
              NumberU64 other = NumberU64 block \<and> Time other = Time block \<and>
              Hash other = Hash block \<and> BaseFee other = BaseFee block \<longrightarrow>
              DeriveL1InfoDeposit keccak other = Returns tx)"
proof -
  let ?tx = "\<lparr>BlockHeight = NumberU64 block, TransactionIndex = 0,
      From = DepositContractAddr, To = Some L1InfoPredeployAddr, Mint = None,
      Value = Some 0, Gas = 99999999,
      Data = L1InfoFuncBytes4 keccak @ be_bytes 8 (unat (NumberU64 block)) @
             be_bytes 8 (unat (Time block)) @ be_bytes 32 (nat \<bar>fee\<bar>) @
             Hash_Bytes (Hash block)\<rparr>"
  have r: "DeriveL1InfoDeposit keccak block = Returns ?tx"
    using fee by (rule DeriveL1InfoDeposit_Some)
  have len: "length (DepositTx.Data ?tx) = 84"
    by (simp add: length_L1InfoFuncBytes4 length_be_bytes length_Hash_Bytes)
  have rest: "drop 4 (DepositTx.Data ?tx) =
             be_bytes 8 (unat (NumberU64 block)) @ be_bytes 8 (unat (Time block)) @
             be_bytes 32 (nat \<bar>fee\<bar>) @ Hash_Bytes (Hash block)"
    by (simp add: length_L1InfoFuncBytes4)
  have n1: "unat (NumberU64 block) < 256 ^ 8" and n2: "unat (Time block) < 256 ^ 8"
    using unsigned_less[of "NumberU64 block"] unsigned_less[of "Time block"] by simp_all
  have n3: "nat \<bar>fee\<bar> < 256 ^ 32"
  proof -
    have "nat \<bar>fee\<bar> < nat (2 ^ 256)" using fee(2) by (simp add: nat_less_iff)
    also have "nat (2 ^ 256) = (256::nat) ^ 32" by simp
    finally show ?thesis .
  qed
  have n4: "unat (Hash block) < 256 ^ 32"
    using unsigned_less[of "Hash block"] by simp
  have rt: "be_nat (be_bytes 8 (unat (NumberU64 block))) = unat (NumberU64 block)"
    "be_nat (be_bytes 8 (unat (Time block))) = unat (Time block)"
    "be_nat (be_bytes 32 (nat \<bar>fee\<bar>)) = nat \<bar>fee\<bar>"
    "be_nat (Hash_Bytes (Hash block)) = unat (Hash block)"
    using n1 n2 n3 n4 by (simp_all only: be_nat_be_bytes Hash_Bytes_def mod_less)
  have ind: "\<forall>other :: 'b L1Info_scheme.
              NumberU64 other = NumberU64 block \<and> Time other = Time block \<and>
              Hash other = Hash block \<and> BaseFee other = BaseFee block \<longrightarrow>
              DeriveL1InfoDeposit keccak other = Returns ?tx"
    using r DeriveL1InfoDeposit_accessors[of _ block keccak] by metis
  have f: "From ?tx = DepositContractAddr \<and> To ?tx = Some L1InfoPredeployAddr \<and>
           Value ?tx = Some 0 \<and> Mint ?tx = None \<and> Gas ?tx = 99999999 \<and>
           TransactionIndex ?tx = 0"
    by simp
  show ?thesis
    using r f len rest rt ind by (intro exI[of _ ?tx]) blast
qed

theorem DeriveL1InfoDeposit_layout_witness:
  "BaseFee block100 = Some 7 \<and> \<bar>7 :: int\<bar> < 2 ^ 256 \<and>
   (\<exists>tx. DeriveL1InfoDeposit keccak_known block100 = Returns tx \<and>
      From tx = DepositContractAddr \<and> To tx = Some L1InfoPredeployAddr \<and>
      Value tx = Some 0 \<and> Mint tx = None \<and> Gas tx = 99999999 \<and> TransactionIndex tx = 0 \<and>
      length (DepositTx.Data tx) = 84 \<and>
      drop 4 (DepositTx.Data tx) =
        be_bytes 8 100 @ be_bytes 8 1000 @ be_bytes 32 7 @
        Hash_Bytes 0xAAAAAAAAAAAAAAAAAAAAAAAAAAAAAAAAAAAAAAAAAAAAAAAAAAAAAAAAAAAAAAAA \<and>
      drop 4 (DepositTx.Data tx) =
        [0, 0, 0, 0, 0, 0, 0, 100,
         0, 0, 0, 0, 0, 0, 3, 232,
         0, 0, 0, 0, 0, 0, 0, 0, 0, 0, 0, 0, 0, 0, 0, 0,
         0, 0, 0, 0, 0, 0, 0, 0, 0, 0, 0, 0, 0, 0, 0, 7,
         0xAA, 0xAA, 0xAA, 0xAA, 0xAA, 0xAA, 0xAA, 0xAA, 0xAA, 0xAA, 0xAA, 0xAA, 0xAA, 0xAA, 0xAA, 0xAA,
         0xAA, 0xAA, 0xAA, 0xAA, 0xAA, 0xAA, 0xAA, 0xAA, 0xAA, 0xAA, 0xAA, 0xAA, 0xAA, 0xAA, 0xAA, 0xAA] \<and>
      DeriveL1InfoDeposit keccak_known (block100\<lparr>ReceiptHash := 77\<rparr>) = Returns tx)"
proof -
  have a: "BaseFee block100 = Some 7" and b: "\<bar>7 :: int\<bar> < 2 ^ 256"
    by (simp_all add: block100_def)
  obtain tx where tx: "DeriveL1InfoDeposit keccak_known block100 = Returns tx"
      "From tx = DepositContractAddr" "To tx = Some L1InfoPredeployAddr"
      "Value tx = Some 0" "Mint tx = None" "Gas tx = 99999999" "TransactionIndex tx = 0"
      "length (DepositTx.Data tx) = 84"
      "drop 4 (DepositTx.Data tx) =
        be_bytes 8 (unat (NumberU64 block100)) @ be_bytes 8 (unat (Time block100)) @
        be_bytes 32 (nat \<bar>7\<bar>) @ Hash_Bytes (Hash block100)"
      "\<forall>other :: BlockInput.
              NumberU64 other = NumberU64 block100 \<and> Time other = Time block100 \<and>
              Hash other = Hash block100 \<and> BaseFee other = BaseFee block100 \<longrightarrow>
              DeriveL1InfoDeposit keccak_known other = Returns tx"
    using DeriveL1InfoDeposit_layout[OF a b, of keccak_known, where 'b = "unit BlockInput_ext"]
    by blast
  have d: "drop 4 (DepositTx.Data tx) =
        be_bytes 8 100 @ be_bytes 8 1000 @ be_bytes 32 7 @
        Hash_Bytes 0xAAAAAAAAAAAAAAAAAAAAAAAAAAAAAAAAAAAAAAAAAAAAAAAAAAAAAAAAAAAAAAAA"
    using tx(9) by (simp add: block100_def)
  have e: "be_bytes 8 100 @ be_bytes 8 1000 @ be_bytes 32 7 @
        Hash_Bytes 0xAAAAAAAAAAAAAAAAAAAAAAAAAAAAAAAAAAAAAAAAAAAAAAAAAAAAAAAAAAAAAAAA =
        [0, 0, 0, 0, 0, 0, 0, 100,
         0, 0, 0, 0, 0, 0, 3, 232,
         0, 0, 0, 0, 0, 0, 0, 0, 0, 0, 0, 0, 0, 0, 0, 0,
         0, 0, 0, 0, 0, 0, 0, 0, 0, 0, 0, 0, 0, 0, 0, 7,
         0xAA, 0xAA, 0xAA, 0xAA, 0xAA, 0xAA, 0xAA, 0xAA, 0xAA, 0xAA, 0xAA, 0xAA, 0xAA, 0xAA, 0xAA, 0xAA,
         0xAA, 0xAA, 0xAA, 0xAA, 0xAA, 0xAA, 0xAA, 0xAA, 0xAA, 0xAA, 0xAA, 0xAA, 0xAA, 0xAA, 0xAA, 0xAA]"
    by (simp add: Hash_Bytes_def be_bytes_numeral)
  have lit: "drop 4 (DepositTx.Data tx) =
        [0, 0, 0, 0, 0, 0, 0, 100,
         0, 0, 0, 0, 0, 0, 3, 232,
         0, 0, 0, 0, 0, 0, 0, 0, 0, 0, 0, 0, 0, 0, 0, 0,
         0, 0, 0, 0, 0, 0, 0, 0, 0, 0, 0, 0, 0, 0, 0, 7,
         0xAA, 0xAA, 0xAA, 0xAA, 0xAA, 0xAA, 0xAA, 0xAA, 0xAA, 0xAA, 0xAA, 0xAA, 0xAA, 0xAA, 0xAA, 0xAA,
         0xAA, 0xAA, 0xAA, 0xAA, 0xAA, 0xAA, 0xAA, 0xAA, 0xAA, 0xAA, 0xAA, 0xAA, 0xAA, 0xAA, 0xAA, 0xAA]"
    using d e by (rule trans)
  have o: "DeriveL1InfoDeposit keccak_known (block100\<lparr>ReceiptHash := 77\<rparr>) = Returns tx"
    using tx(10) by simp
  show ?thesis using a b tx(1-8) d lit o by blast
qed

section \<open>The claims about DeriveBlockInputs\<close>

text \<open>
  Claim C4. Whenever \<open>DeriveBlockInputs\<close> succeeds, the L1-info transaction and the user
  deposits were derived, \<open>Transactions\<close> is the encoding of the L1-info transaction followed
  by the encodings of the user deposits in their order, one per kept log, and
  \<open>SuggestedFeeRecipient\<close> is the zero address; when the receipts yield no deposit,
  \<open>Transactions\<close> has exactly the one entry. And it does succeed, with exactly this payload,
  whenever the receipts check passes, the L1-info transaction is built and encoded, and the
  user deposits are derived and encoded: in particular a block whose receipts keep no log
  yields the payload whose only transaction is the encoded L1-info transaction.
\<close>

theorem DeriveBlockInputs_success:
  "(DeriveBlockInputs keccak deriveSha marshal block receipts = Returns (Some pa, None) \<longrightarrow>
      (\<exists>l1Tx deps. DeriveL1InfoDeposit keccak block = Returns l1Tx \<and>
           DeriveUserDeposits keccak (NumberU64 block) receipts = (map Some deps, None) \<and>
           length deps = length (kept_logs receipts) \<and>
           marshal l1Tx = (Transactions pa ! 0, None) \<and>
           (\<forall>i<length deps. marshal (deps ! i) = (Transactions pa ! (i + 1), None)) \<and>
           length (Transactions pa) = 1 + length deps \<and>
           Transactions pa = fst (marshal l1Tx) # map (\<lambda>d. fst (marshal d)) deps \<and>
           SuggestedFeeRecipient pa = 0 \<and>
           (kept_logs receipts = [] \<longrightarrow> Transactions pa = [fst (marshal l1Tx)]))) \<and>
   (\<forall>l1Tx enc deps.
      CheckReceipts deriveSha block receipts \<and>
      DeriveL1InfoDeposit keccak block = Returns l1Tx \<and> marshal l1Tx = (enc, None) \<and>
      DeriveUserDeposits keccak (NumberU64 block) receipts = (map Some deps, None) \<and>
      (\<forall>d\<in>set deps. snd (marshal d) = None) \<longrightarrow>
      DeriveBlockInputs keccak deriveSha marshal block receipts =
        Returns (Some \<lparr>Timestamp = Time block, Random = MixDigest block,
          SuggestedFeeRecipient = 0,
          Transactions = enc # map (\<lambda>d. fst (marshal d)) deps\<rparr>, None)) \<and>
   (\<forall>l1Tx enc.
      CheckReceipts deriveSha block receipts \<and>
      DeriveL1InfoDeposit keccak block = Returns l1Tx \<and> marshal l1Tx = (enc, None) \<and>
      kept_logs receipts = [] \<longrightarrow>
      DeriveBlockInputs keccak deriveSha marshal block receipts =
        Returns (Some \<lparr>Timestamp = Time block, Random = MixDigest block,
          SuggestedFeeRecipient = 0, Transactions = [enc]\<rparr>, None))"
proof (intro conjI allI impI)
  assume "DeriveBlockInputs keccak deriveSha marshal block receipts = Returns (Some pa, None)"
  then show "\<exists>l1Tx deps. DeriveL1InfoDeposit keccak block = Returns l1Tx \<and>
           DeriveUserDeposits keccak (NumberU64 block) receipts = (map Some deps, None) \<and>
           length deps = length (kept_logs receipts) \<and>
           marshal l1Tx = (Transactions pa ! 0, None) \<and>
           (\<forall>i<length deps. marshal (deps ! i) = (Transactions pa ! (i + 1), None)) \<and>
           length (Transactions pa) = 1 + length deps \<and>
           Transactions pa = fst (marshal l1Tx) # map (\<lambda>d. fst (marshal d)) deps \<and>
           SuggestedFeeRecipient pa = 0 \<and>
           (kept_logs receipts = [] \<longrightarrow> Transactions pa = [fst (marshal l1Tx)])"
    by (rule DeriveBlockInputs_Some_shape)
next
  fix l1Tx enc deps
  assume a: "CheckReceipts deriveSha block receipts \<and>
      DeriveL1InfoDeposit keccak block = Returns l1Tx \<and> marshal l1Tx = (enc, None) \<and>
      DeriveUserDeposits keccak (NumberU64 block) receipts = (map Some deps, None) \<and>
      (\<forall>d\<in>set deps. snd (marshal d) = None)"
  show "DeriveBlockInputs keccak deriveSha marshal block receipts =
        Returns (Some \<lparr>Timestamp = Time block, Random = MixDigest block,
          SuggestedFeeRecipient = 0,
          Transactions = enc # map (\<lambda>d. fst (marshal d)) deps\<rparr>, None)"
    by (rule DeriveBlockInputs_Some_intro)
      (rule a[THEN conjunct1], rule a[THEN conjunct2, THEN conjunct1],
       rule a[THEN conjunct2, THEN conjunct2, THEN conjunct1],
       rule a[THEN conjunct2, THEN conjunct2, THEN conjunct2, THEN conjunct1],
       rule a[THEN conjunct2, THEN conjunct2, THEN conjunct2, THEN conjunct2])
next
  fix l1Tx enc
  assume a: "CheckReceipts deriveSha block receipts \<and>
      DeriveL1InfoDeposit keccak block = Returns l1Tx \<and> marshal l1Tx = (enc, None) \<and>
      kept_logs receipts = []"
  have ud: "DeriveUserDeposits keccak (NumberU64 block) receipts = (map Some [], None)"
    using a[THEN conjunct2, THEN conjunct2, THEN conjunct2]
    by (simp add: DeriveUserDeposits_no_kept_logs)
  have "DeriveBlockInputs keccak deriveSha marshal block receipts =
        Returns (Some \<lparr>Timestamp = Time block, Random = MixDigest block,
          SuggestedFeeRecipient = 0,
          Transactions = enc # map (\<lambda>d. fst (marshal d)) []\<rparr>, None)"
    by (rule DeriveBlockInputs_Some_intro)
      (rule a[THEN conjunct1], rule a[THEN conjunct2, THEN conjunct1],
       rule a[THEN conjunct2, THEN conjunct2, THEN conjunct1], rule ud, simp)
  then show "DeriveBlockInputs keccak deriveSha marshal block receipts =
        Returns (Some \<lparr>Timestamp = Time block, Random = MixDigest block,
          SuggestedFeeRecipient = 0, Transactions = [enc]\<rparr>, None)"
    by simp
qed

theorem DeriveBlockInputs_success_witness:
  "(\<exists>pa. DeriveBlockInputs keccak_known deriveSha_count marshal_plain block100 receipts_ok =
          Returns (Some pa, None) \<and>
        length (Transactions pa) = 3 \<and> SuggestedFeeRecipient pa = 0 \<and>
        length (kept_logs receipts_ok) = 2 \<and>
        (\<exists>l1Tx. DeriveL1InfoDeposit keccak_known block100 = Returns l1Tx \<and>
           marshal_plain l1Tx = (Transactions pa ! 0, None))) \<and>
   kept_logs receipts_none = [] \<and>
   CheckReceipts deriveSha_count block100 receipts_none \<and>
   (\<exists>l1Tx. DeriveL1InfoDeposit keccak_known block100 = Returns l1Tx \<and>
      marshal_plain l1Tx = (126 # DepositTx.Data l1Tx, None) \<and>
      DeriveBlockInputs keccak_known deriveSha_count marshal_plain block100 receipts_none =
        Returns (Some \<lparr>Timestamp = 1000, Random = 0x55, SuggestedFeeRecipient = 0,
          Transactions = [126 # DepositTx.Data l1Tx]\<rparr>, None))"
proof -
  note T = DeriveBlockInputs_success[where keccak = keccak_known and deriveSha = deriveSha_count
      and marshal = marshal_plain and block = block100]
  obtain pa where h: "DeriveBlockInputs keccak_known deriveSha_count marshal_plain block100 receipts_ok =
          Returns (Some pa, None)"
    using block100_derives by blast
  from T[where receipts = receipts_ok and pa = pa, THEN conjunct1, rule_format, OF h]
  obtain l1Tx deps where
    r: "DeriveL1InfoDeposit keccak_known block100 = Returns l1Tx \<and>
      DeriveUserDeposits keccak_known (NumberU64 block100) receipts_ok = (map Some deps, None) \<and>
      length deps = length (kept_logs receipts_ok) \<and>
      marshal_plain l1Tx = (Transactions pa ! 0, None) \<and>
      (\<forall>i<length deps. marshal_plain (deps ! i) = (Transactions pa ! (i + 1), None)) \<and>
      length (Transactions pa) = 1 + length deps \<and>
      Transactions pa = fst (marshal_plain l1Tx) # map (\<lambda>d. fst (marshal_plain d)) deps \<and>
      SuggestedFeeRecipient pa = 0 \<and>
      (kept_logs receipts_ok = [] \<longrightarrow> Transactions pa = [fst (marshal_plain l1Tx)])"
    by (elim exE)
  have k: "length (kept_logs receipts_ok) = 2" by (simp add: kept_logs_receipts_ok)
  note r1 = r[THEN conjunct1]
  note r3 = r[THEN conjunct2, THEN conjunct2, THEN conjunct1]
  note r4 = r[THEN conjunct2, THEN conjunct2, THEN conjunct2, THEN conjunct1]
  note r6 = r[THEN conjunct2, THEN conjunct2, THEN conjunct2, THEN conjunct2, THEN conjunct2,
      THEN conjunct1]
  note r8 = r[THEN conjunct2, THEN conjunct2, THEN conjunct2, THEN conjunct2, THEN conjunct2,
      THEN conjunct2, THEN conjunct2, THEN conjunct1]
  have len3: "length (Transactions pa) = 3" using r6 r3 k by simp
  have first: "\<exists>pa. DeriveBlockInputs keccak_known deriveSha_count marshal_plain block100 receipts_ok =
          Returns (Some pa, None) \<and>
        length (Transactions pa) = 3 \<and> SuggestedFeeRecipient pa = 0 \<and>
        length (kept_logs receipts_ok) = 2 \<and>
        (\<exists>l1Tx. DeriveL1InfoDeposit keccak_known block100 = Returns l1Tx \<and>
           marshal_plain l1Tx = (Transactions pa ! 0, None))"
    using h len3 r8 k r1 r4 by blast
  have k0: "kept_logs receipts_none = []" by (rule kept_logs_receipts_none)
  have c0: "CheckReceipts deriveSha_count block100 receipts_none"
    by (simp add: CheckReceipts_def deriveSha_count_def block100_def receipts_none_def)
  obtain l1 where l1: "DeriveL1InfoDeposit keccak_known block100 = Returns l1"
    using block100_L1Info by blast
  have m: "marshal_plain l1 = (126 # DepositTx.Data l1, None)"
    by (simp add: marshal_plain_def)
  have "DeriveBlockInputs keccak_known deriveSha_count marshal_plain block100 receipts_none =
        Returns (Some \<lparr>Timestamp = Time block100, Random = MixDigest block100,
          SuggestedFeeRecipient = 0, Transactions = [126 # DepositTx.Data l1]\<rparr>, None)"
    using T[where receipts = receipts_none and pa = pa, THEN conjunct2, THEN conjunct2,
        rule_format, of l1 "126 # DepositTx.Data l1"] c0 l1 m k0
    by blast
  moreover have "Time block100 = 1000" "MixDigest block100 = 0x55"
    by (simp_all add: block100_def)
  ultimately have second: "DeriveBlockInputs keccak_known deriveSha_count marshal_plain block100
        receipts_none =
        Returns (Some \<lparr>Timestamp = 1000, Random = 0x55, SuggestedFeeRecipient = 0,
          Transactions = [126 # DepositTx.Data l1]\<rparr>, None)"
    by simp
  show ?thesis using first k0 c0 l1 m second by blast
qed

text \<open>
  Claim C5. If \<open>CheckReceipts\<close> fails, \<open>DeriveBlockInputs\<close> returns the nil result with the
  \<open>IntegrityMismatch\<close> error, whatever the hash function, the encoder, the block's other
  fields and the receipts' logs are: nothing that happens after the check (building the
  L1-info transaction, which can panic, encoding, deriving deposits) has any influence. On
  every path that returns an error the \<open>PayloadAttributes\<close> result is nil, and it is
  non-nil on the path that returns no error.
\<close>

theorem DeriveBlockInputs_integrity_first:
  "(\<not> CheckReceipts deriveSha block receipts \<longrightarrow>
      DeriveBlockInputs keccak deriveSha marshal block receipts =
        Returns (None, Some (ErrReceiptsInconsistent (ReceiptHash block))) \<and>
      IntegrityMismatch (ErrReceiptsInconsistent (ReceiptHash block))) \<and>
   (\<forall>pa err. DeriveBlockInputs keccak deriveSha marshal block receipts = Returns (pa, err) \<longrightarrow>
      (err \<noteq> None \<longrightarrow> pa = None) \<and> (err = None \<longrightarrow> pa \<noteq> None))"
proof -
  have 1: "\<not> CheckReceipts deriveSha block receipts \<longrightarrow>
      DeriveBlockInputs keccak deriveSha marshal block receipts =
        Returns (None, Some (ErrReceiptsInconsistent (ReceiptHash block))) \<and>
      IntegrityMismatch (ErrReceiptsInconsistent (ReceiptHash block))"
    by (simp add: DeriveBlockInputs_def)
  have 2: "\<forall>pa err. DeriveBlockInputs keccak deriveSha marshal block receipts = Returns (pa, err) \<longrightarrow>
      (err \<noteq> None \<longrightarrow> pa = None) \<and> (err = None \<longrightarrow> pa \<noteq> None)"
    using DeriveBlockInputs_all_or_nothing[of keccak deriveSha marshal block receipts] by blast
  show ?thesis using 1 2 by blast
qed

theorem DeriveBlockInputs_integrity_first_witness:
  "\<not> CheckReceipts deriveSha_count (block100\<lparr>BaseFee := None, ReceiptHash := 5\<rparr>) receipts_bad \<and>
   DeriveL1InfoDeposit keccak_known (block100\<lparr>BaseFee := None\<rparr>) = Panics \<and>
   DeriveBlockInputs keccak_known deriveSha_count marshal_failing
       (block100\<lparr>BaseFee := None, ReceiptHash := 5\<rparr>) receipts_bad =
     Returns (None, Some (ErrReceiptsInconsistent 5)) \<and>
   DeriveBlockInputs keccak_known deriveSha_count marshal_plain block100 receipts_bad =
     Returns (None, Some (ErrDeriveUserDeposits (ErrMalformattedLog (ErrDataOffset 128))))"
proof -
  have c: "\<not> CheckReceipts deriveSha_count (block100\<lparr>BaseFee := None, ReceiptHash := 5\<rparr>) receipts_bad"
    by (simp add: CheckReceipts_def deriveSha_count_def block100_def receipts_bad_def)
  have p: "DeriveL1InfoDeposit keccak_known (block100\<lparr>BaseFee := None\<rparr>) = Panics"
    by (rule DeriveL1InfoDeposit_Panics) simp
  have i: "DeriveBlockInputs keccak_known deriveSha_count marshal_failing
       (block100\<lparr>BaseFee := None, ReceiptHash := 5\<rparr>) receipts_bad =
     Returns (None, Some (ErrReceiptsInconsistent 5))"
    using c DeriveBlockInputs_integrity_first[of deriveSha_count
        "block100\<lparr>BaseFee := None, ReceiptHash := 5\<rparr>" receipts_bad keccak_known marshal_failing]
    by simp
  have c2: "CheckReceipts deriveSha_count block100 receipts_bad"
    by (simp add: CheckReceipts_def deriveSha_count_def block100_def receipts_bad_def)
  have n: "NumberU64 block100 = 100" by (simp add: block100_def)
  have d: "DeriveBlockInputs keccak_known deriveSha_count marshal_plain block100 receipts_bad =
     Returns (None, Some (ErrDeriveUserDeposits (ErrMalformattedLog (ErrDataOffset 128))))"
    unfolding DeriveBlockInputs_def
    by (simp add: c2 n block100_L1Info receipts_bad_derives marshal_plain_def)
  show ?thesis using c p i d by simp
qed

end
